theory Spec2Isabelle
  imports Main "HOL-Library.Word" "HOL-Library.Sublist"
begin

unbundle bit_operations_syntax

section \<open>Data model of canhazaxs.c\<close>

text \<open>
  \<open>mode_t\<close>, \<open>uid_t\<close> and \<open>gid_t\<close> are unsigned 32-bit integers, and so are the
  \<open>unsigned int\<close> fields \<open>len\<close> and \<open>idx\<close> of \<open>entries_t\<close>. Of \<open>struct stat\<close> the
  program reads \<open>st_mode\<close>, \<open>st_uid\<close> and \<open>st_gid\<close> only.
\<close>

type_synonym mode_t = "32 word"
type_synonym uid_t = "32 word"
type_synonym gid_t = "32 word"

record stat =
  st_mode :: mode_t
  st_uid :: uid_t
  st_gid :: gid_t

text \<open>
  The globals \<open>g_uid\<close>, \<open>g_groups\<close> and \<open>g_ngroups\<close>, fixed before any scan starts.
  \<open>g_groups\<close> is the list of the first \<open>g_ngroups\<close> slots of the array, the only slots
  the program reads.
\<close>

record identity =
  g_uid :: uid_t
  g_groups :: "gid_t list"

text \<open>
  Modelled from the spec: the macros \<open>S_IXOTH\<close> ... \<open>S_IFLNK\<close> come from \<open>sys/stat.h\<close>,
  which is not part of the repository. The spec names them as the other / group / owner
  execute, write and read bits, the set-gid and set-uid bits and the object kind; they
  have their POSIX (Linux) values here, octal 0001 ... 04000 and 0170000, 040000, 0120000.
\<close>

definition S_IXOTH :: mode_t where "S_IXOTH = 0x001"
definition S_IWOTH :: mode_t where "S_IWOTH = 0x002"
definition S_IROTH :: mode_t where "S_IROTH = 0x004"
definition S_IXGRP :: mode_t where "S_IXGRP = 0x008"
definition S_IWGRP :: mode_t where "S_IWGRP = 0x010"
definition S_IRGRP :: mode_t where "S_IRGRP = 0x020"
definition S_IXUSR :: mode_t where "S_IXUSR = 0x040"
definition S_IWUSR :: mode_t where "S_IWUSR = 0x080"
definition S_IRUSR :: mode_t where "S_IRUSR = 0x100"
definition S_ISGID :: mode_t where "S_ISGID = 0x400"
definition S_ISUID :: mode_t where "S_ISUID = 0x800"
definition S_IFMT :: mode_t where "S_IFMT = 0xF000"
definition S_IFDIR :: mode_t where "S_IFDIR = 0x4000"
definition S_IFLNK :: mode_t where "S_IFLNK = 0xA000"

definition S_ISLNK :: "mode_t \<Rightarrow> bool" where
  "S_ISLNK m = (m AND S_IFMT = S_IFLNK)"

definition S_ISDIR :: "mode_t \<Rightarrow> bool" where
  "S_ISDIR m = (m AND S_IFMT = S_IFDIR)"

section \<open>The permission evaluator\<close>

text \<open>\<open>in_group\<close>: the loop over \<open>g_groups[0 .. g_ngroups - 1]\<close>, returning at the first hit.\<close>

fun in_group_loop :: "gid_t list \<Rightarrow> gid_t \<Rightarrow> bool" where
  "in_group_loop [] gid = False"
| "in_group_loop (g # gs) gid = (if g = gid then True else in_group_loop gs gid)"

definition in_group :: "identity \<Rightarrow> gid_t \<Rightarrow> bool" where
  "in_group u gid = in_group_loop (g_groups u) gid"

definition is_executable :: "identity \<Rightarrow> stat \<Rightarrow> bool" where
  "is_executable u sb =
     (if g_uid u = 0 then True
      else if st_mode sb AND S_IXOTH \<noteq> 0 then True
      else if st_mode sb AND S_IXUSR \<noteq> 0 \<and> st_uid sb = g_uid u then True
      else if st_mode sb AND S_IXGRP \<noteq> 0 \<and> in_group u (st_gid sb) then True
      else False)"

definition is_setuid :: "identity \<Rightarrow> stat \<Rightarrow> bool" where
  "is_setuid u sb = (is_executable u sb \<and> st_mode sb AND S_ISUID \<noteq> 0)"

definition is_setgid :: "identity \<Rightarrow> stat \<Rightarrow> bool" where
  "is_setgid u sb = (is_executable u sb \<and> st_mode sb AND S_ISGID \<noteq> 0)"

definition is_writable :: "identity \<Rightarrow> stat \<Rightarrow> bool" where
  "is_writable u sb =
     (if st_mode sb AND S_IWOTH \<noteq> 0 then True
      else if st_mode sb AND S_IWUSR \<noteq> 0 \<and> st_uid sb = g_uid u then True
      else if st_mode sb AND S_IWGRP \<noteq> 0 \<and> in_group u (st_gid sb) then True
      else False)"

definition is_readable :: "identity \<Rightarrow> stat \<Rightarrow> bool" where
  "is_readable u sb =
     (if st_mode sb AND S_IROTH \<noteq> 0 then True
      else if st_mode sb AND S_IRUSR \<noteq> 0 \<and> st_uid sb = g_uid u then True
      else if st_mode sb AND S_IRGRP \<noteq> 0 \<and> in_group u (st_gid sb) then True
      else False)"

section \<open>The access bucket store\<close>

text \<open>
  \<open>entry_t\<close>: the \<open>path\<close> pointer holds what \<open>strdup\<close> returned (\<open>None\<close> is \<open>NULL\<close>),
  \<open>statbuf\<close> the copied \<open>struct stat\<close>.
\<close>

record entry_t =
  path :: "string option"
  statbuf :: stat

text \<open>
  \<open>entries_t\<close>: \<open>head\<close> is the heap block the pointer refers to, one list element per
  allocated slot (\<open>[]\<close> for the initial \<open>NULL\<close>); a slot that was allocated and never
  written is \<open>None\<close>.
\<close>

record entries_t =
  len :: "32 word"
  idx :: "32 word"
  head :: "entry_t option list"

text \<open>The argument \<open>entries_t *pentries\<close> always points to one of the five globals.\<close>

datatype entries_ptr = G_suid | G_sgid | G_writable | G_readable | G_executable

text \<open>What the process does that can be observed from outside: system calls and
  the diagnostics written to \<open>stderr\<close>, in order.\<close>

datatype event =
    Opendir string
  | Closedir string
  | Lstat string
  | Err_opendir string
  | Err_name_too_long string string
  | Err_lstat string

record state =
  g_suid :: entries_t
  g_sgid :: entries_t
  g_writable :: entries_t
  g_readable :: entries_t
  g_executable :: entries_t
  nalloc :: nat
  trace :: "event list"

text \<open>
  What is fixed during a scan: the identity under test, the compile-time switch
  \<open>RECORD_LESS_INTERESTING\<close>, and the allocator: \<open>alloc_ok k\<close> tells whether the \<open>k\<close>-th
  allocation request of the process (\<open>realloc\<close> or \<open>strdup\<close>, counted by \<open>nalloc\<close>)
  succeeds.
\<close>

record env =
  who :: identity
  RECORD_LESS_INTERESTING :: bool
  alloc_ok :: "nat \<Rightarrow> bool"

text \<open>
  The ways the process ends before it reports: \<open>exit(1)\<close> after "Out of memory!", a
  write outside an allocated block or outside the path buffer (undefined behaviour in
  C), and \<open>return 1\<close> from \<open>main\<close> when \<open>realpath\<close> fails on an argument.
\<close>

datatype fatal = OutOfMemory | OutOfBounds | UnresolvedPath

definition g_empty :: entries_t where
  "g_empty = \<lparr>len = 0, idx = 0, head = []\<rparr>"

definition init_state :: state where
  "init_state = \<lparr>g_suid = g_empty, g_sgid = g_empty, g_writable = g_empty,
     g_readable = g_empty, g_executable = g_empty, nalloc = 0, trace = []\<rparr>"

fun deref :: "state \<Rightarrow> entries_ptr \<Rightarrow> entries_t" where
  "deref s G_suid = g_suid s"
| "deref s G_sgid = g_sgid s"
| "deref s G_writable = g_writable s"
| "deref s G_readable = g_readable s"
| "deref s G_executable = g_executable s"

fun store :: "entries_ptr \<Rightarrow> entries_t \<Rightarrow> state \<Rightarrow> state" where
  "store G_suid e s = s\<lparr>g_suid := e\<rparr>"
| "store G_sgid e s = s\<lparr>g_sgid := e\<rparr>"
| "store G_writable e s = s\<lparr>g_writable := e\<rparr>"
| "store G_readable e s = s\<lparr>g_readable := e\<rparr>"
| "store G_executable e s = s\<lparr>g_executable := e\<rparr>"

text \<open>
  \<open>realloc(blk, n * sizeof(entry_t))\<close> as request number \<open>k\<close>: on success a block of \<open>n\<close>
  slots that keeps the old contents, the new slots unwritten. \<open>strdup\<close> as request
  number \<open>k\<close>: a copy of the string, or \<open>NULL\<close>.
\<close>

definition realloc :: "(nat \<Rightarrow> bool) \<Rightarrow> nat \<Rightarrow> 'a option list \<Rightarrow> nat \<Rightarrow> 'a option list option" where
  "realloc ok k blk n =
     (if ok k then Some (take n blk @ replicate (n - length blk) None) else None)"

definition strdup :: "(nat \<Rightarrow> bool) \<Rightarrow> nat \<Rightarrow> string \<Rightarrow> string option" where
  "strdup ok k s = (if ok k then Some s else None)"

text \<open>
  \<open>record_access\<close>. \<open>idx + 1\<close> and \<open>len + 1\<close> are \<open>unsigned int\<close> sums and wrap; the byte
  count \<open>(len + 1) * sizeof(entry_t)\<close> is a \<open>size_t\<close> product of a 32-bit value and does
  not. The write through \<open>pentry = head + idx\<close> is inside the block only when
  \<open>idx\<close> is less than the number of allocated slots.
\<close>

definition record_access :: "env \<Rightarrow> entries_ptr \<Rightarrow> string \<Rightarrow> stat \<Rightarrow> state \<Rightarrow> fatal + state" where
  "record_access E pentries p sb s =
     (let e = deref s pentries;
          new_next_idx = idx e + 1
      in case (if new_next_idx > len e
               then (case realloc (alloc_ok E) (nalloc s) (head e) (unat (len e + 1)) of
                       None \<Rightarrow> Inl OutOfMemory
                     | Some new_head \<Rightarrow>
                         Inr (e\<lparr>head := new_head, len := len e + 1\<rparr>, Suc (nalloc s)))
               else Inr (e, nalloc s)) of
           Inl x \<Rightarrow> Inl x
         | Inr (e1, k) \<Rightarrow>
             if unat (idx e1) < length (head e1)
             then Inr (store pentries
                    (e1\<lparr>idx := new_next_idx,
                        head := (head e1)[unat (idx e1) :=
                                  Some \<lparr>path = strdup (alloc_ok E) k p, statbuf = sb\<rparr>]\<rparr>)
                    (s\<lparr>nalloc := Suc k\<rparr>))
             else Inl OutOfBounds)"

definition record_access_level :: "env \<Rightarrow> string \<Rightarrow> stat \<Rightarrow> state \<Rightarrow> fatal + state" where
  "record_access_level E p sb s =
     (if is_setuid (who E) sb then record_access E G_suid p sb s
      else if is_setgid (who E) sb then record_access E G_sgid p sb s
      else if is_writable (who E) sb then record_access E G_writable p sb s
      else if RECORD_LESS_INTERESTING E \<and> is_readable (who E) sb
        then record_access E G_readable p sb s
      else if RECORD_LESS_INTERESTING E \<and> is_executable (who E) sb
        then record_access E G_executable p sb s
      else Inr s)"

text \<open>The entries \<open>report_findings\<close> prints: slots \<open>0 .. idx - 1\<close>.\<close>

definition recorded :: "entries_t \<Rightarrow> entry_t option list" where
  "recorded e = take (unat (idx e)) (head e)"

definition entries_inv :: "entries_t \<Rightarrow> bool" where
  "entries_inv e = (idx e \<le> len e \<and> length (head e) = unat (len e))"

section \<open>The directory walker\<close>

text \<open>
  The file system as one scan sees it. \<open>opendir\<close> answers with a failure (\<open>None\<close>) or
  with the entries that \<open>readdir\<close> then returns one by one. Each entry carries its name
  (a C string, without the terminator), the answer of \<open>lstat\<close> on its path (\<open>None\<close> is
  the return value -1) and the answer \<open>opendir\<close> gives if the walker opens that path.
\<close>

datatype dirent =
  Dirent (d_name: string) (lstat_res: "stat option") (opendir_res: "dirent list option")

text \<open>
  Modelled from the spec: \<open>PATH_MAX\<close> comes from \<open>limits.h\<close>, which is not part of the
  repository; it is the spec's platform path-length limit, 4096 on Linux.
\<close>

definition PATH_MAX :: nat where
  "PATH_MAX = 4096"

text \<open>The test on \<open>d_name[0]\<close>, \<open>d_name[1]\<close> and \<open>d_name[2]\<close> at the top of the loop.\<close>

fun skip_name :: "string \<Rightarrow> bool" where
  "skip_name [] = False"
| "skip_name (c0 # cs) =
     (if c0 = CHR ''.''
      then (case cs of
              [] \<Rightarrow> True
            | c1 # cs' \<Rightarrow> c1 = CHR ''.'' \<and> cs' = [])
      else False)"

text \<open>
  \<open>end - canonical_path >= PATH_MAX - 1 - strlen(pe->d_name)\<close>: the right-hand side is a
  \<open>size_t\<close> difference and wraps modulo \<open>2 ^ 64\<close>.
\<close>

definition name_too_long :: "string \<Rightarrow> string \<Rightarrow> bool" where
  "name_too_long dir name =
     ((int PATH_MAX - 1 - int (length name)) mod 2 ^ 64 \<le> int (length dir))"

text \<open>
  The contents of the buffer \<open>canonical_path\<close> after \<open>my_stpcpy\<close>, the optional
  separator and \<open>strcpy\<close>.
\<close>

definition canonical_path :: "string \<Rightarrow> string \<Rightarrow> string" where
  "canonical_path dir name =
     dir @ (if dir \<noteq> [] \<and> last dir \<noteq> CHR ''/'' then ''/'' else []) @ name"

text \<open>
  \<open>scan_directory\<close>, its \<open>while ((pe = readdir(pd)))\<close> loop and one pass through the
  body of that loop, where \<open>continue\<close> ends the pass. The buffer has \<open>PATH_MAX + 1\<close>
  bytes: \<open>my_stpcpy\<close> writes \<open>length dir\<close> bytes into it, \<open>strcpy\<close> ends one byte after
  the path.
\<close>

function scan_directory :: "env \<Rightarrow> string \<Rightarrow> dirent list option \<Rightarrow> state \<Rightarrow> fatal + state"
  and readdir_loop :: "env \<Rightarrow> string \<Rightarrow> dirent list \<Rightarrow> state \<Rightarrow> fatal + state"
  and loop_body :: "env \<Rightarrow> string \<Rightarrow> dirent \<Rightarrow> state \<Rightarrow> fatal + state" where
  "scan_directory E dir None s =
     Inr (s\<lparr>trace := trace s @ [Opendir dir, Err_opendir dir]\<rparr>)"
| "scan_directory E dir (Some es) s =
     (case readdir_loop E dir es (s\<lparr>trace := trace s @ [Opendir dir]\<rparr>) of
        Inl x \<Rightarrow> Inl x
      | Inr s' \<Rightarrow> Inr (s'\<lparr>trace := trace s' @ [Closedir dir]\<rparr>))"
| "readdir_loop E dir [] s = Inr s"
| "readdir_loop E dir (pe # es) s =
     (case loop_body E dir pe s of
        Inl x \<Rightarrow> Inl x
      | Inr s' \<Rightarrow> readdir_loop E dir es s')"
| "loop_body E dir (Dirent name st sub) s =
     (if skip_name name then Inr s
      else if PATH_MAX + 1 < length dir then Inl OutOfBounds
      else if name_too_long dir name
        then Inr (s\<lparr>trace := trace s @ [Err_name_too_long dir name]\<rparr>)
      else if PATH_MAX + 1 < length (canonical_path dir name) + 1 then Inl OutOfBounds
      else
        (case st of
           None \<Rightarrow>
             Inr (s\<lparr>trace := trace s @ [Lstat (canonical_path dir name),
                                         Err_lstat (canonical_path dir name)]\<rparr>)
         | Some sb \<Rightarrow>
             if S_ISLNK (st_mode sb)
             then Inr (s\<lparr>trace := trace s @ [Lstat (canonical_path dir name)]\<rparr>)
             else
               (case record_access_level E (canonical_path dir name) sb
                       (s\<lparr>trace := trace s @ [Lstat (canonical_path dir name)]\<rparr>) of
                  Inl x \<Rightarrow> Inl x
                | Inr s2 \<Rightarrow>
                    if S_ISDIR (st_mode sb) \<and> is_executable (who E) sb
                    then scan_directory E (canonical_path dir name) sub s2
                    else Inr s2)))"
  by pat_completeness auto
termination
  by (relation "measure (case_sum (\<lambda>(E, dir, t, s). size_option (size_list size) t)
                   (case_sum (\<lambda>(E, dir, es, s). size_list size es)
                             (\<lambda>(E, dir, pe, s). size pe)))") simp_all

text \<open>
  The loop of \<open>main\<close> over the directory arguments. Each argument comes with the answer
  of \<open>realpath\<close> on it (\<open>None\<close> is \<open>NULL\<close>) and with the answer \<open>opendir\<close> gives on the
  resolved path.
\<close>

fun main_loop :: "env \<Rightarrow> (string option \<times> dirent list option) list \<Rightarrow> state \<Rightarrow> fatal + state" where
  "main_loop E [] s = Inr s"
| "main_loop E ((resolved, t) # argv) s =
     (case resolved of
        None \<Rightarrow> Inl UnresolvedPath
      | Some canonical \<Rightarrow>
          (case scan_directory E canonical t s of
             Inl x \<Rightarrow> Inl x
           | Inr s' \<Rightarrow> main_loop E argv s'))"

section \<open>Notions used to state the properties\<close>

text \<open>Every bucket keeps \<open>idx \<le> len\<close>, and \<open>len\<close> is the size of its block.\<close>

definition state_inv :: "state \<Rightarrow> bool" where
  "state_inv s =
     (entries_inv (g_suid s) \<and> entries_inv (g_sgid s) \<and> entries_inv (g_writable s)
      \<and> entries_inv (g_readable s) \<and> entries_inv (g_executable s))"

text \<open>
  The spec's predicates (section 4.1), written from its words on the bits of the mode:
  other / owner / group execute are bits 0, 6, 3, write 1, 7, 4, read 2, 8, 5, set-gid
  and set-uid are bits 10 and 11. Only \<open>can_execute\<close> has the case for uid 0.
\<close>

definition can_execute :: "identity \<Rightarrow> stat \<Rightarrow> bool" where
  "can_execute u sb =
     (g_uid u = 0 \<or> bit (st_mode sb) 0
      \<or> (bit (st_mode sb) 6 \<and> st_uid sb = g_uid u)
      \<or> (bit (st_mode sb) 3 \<and> st_gid sb \<in> set (g_groups u)))"

definition can_write :: "identity \<Rightarrow> stat \<Rightarrow> bool" where
  "can_write u sb =
     (bit (st_mode sb) 1
      \<or> (bit (st_mode sb) 7 \<and> st_uid sb = g_uid u)
      \<or> (bit (st_mode sb) 4 \<and> st_gid sb \<in> set (g_groups u)))"

definition can_read :: "identity \<Rightarrow> stat \<Rightarrow> bool" where
  "can_read u sb =
     (bit (st_mode sb) 2
      \<or> (bit (st_mode sb) 8 \<and> st_uid sb = g_uid u)
      \<or> (bit (st_mode sb) 5 \<and> st_gid sb \<in> set (g_groups u)))"

definition is_setuid_executable :: "identity \<Rightarrow> stat \<Rightarrow> bool" where
  "is_setuid_executable u sb = (can_execute u sb \<and> bit (st_mode sb) 11)"

definition is_setgid_executable :: "identity \<Rightarrow> stat \<Rightarrow> bool" where
  "is_setgid_executable u sb = (can_execute u sb \<and> bit (st_mode sb) 10)"

text \<open>
  The spec's priority chain (section 4.2): the criterion of each bucket in the spec's
  predicates, the order of the buckets, and the first bucket whose criterion holds.
\<close>

fun matches :: "env \<Rightarrow> stat \<Rightarrow> entries_ptr \<Rightarrow> bool" where
  "matches E sb G_suid = is_setuid_executable (who E) sb"
| "matches E sb G_sgid = is_setgid_executable (who E) sb"
| "matches E sb G_writable = can_write (who E) sb"
| "matches E sb G_readable = (RECORD_LESS_INTERESTING E \<and> can_read (who E) sb)"
| "matches E sb G_executable = (RECORD_LESS_INTERESTING E \<and> can_execute (who E) sb)"

definition priority :: "entries_ptr list" where
  "priority = [G_suid, G_sgid, G_writable, G_readable, G_executable]"

definition bucket_of :: "env \<Rightarrow> stat \<Rightarrow> entries_ptr option" where
  "bucket_of E sb = find (matches E sb) priority"

text \<open>Every written slot of every bucket holds a \<open>stat\<close> whose first matching bucket
  is the one it is in.\<close>

definition slot_in_place :: "env \<Rightarrow> entries_ptr \<Rightarrow> entry_t option \<Rightarrow> bool" where
  "slot_in_place E b x =
     (case x of None \<Rightarrow> True | Some ent \<Rightarrow> bucket_of E (statbuf ent) = Some b)"

definition buckets_in_place :: "env \<Rightarrow> state \<Rightarrow> bool" where
  "buckets_in_place E s =
     (list_all (slot_in_place E G_suid) (recorded (g_suid s))
      \<and> list_all (slot_in_place E G_sgid) (recorded (g_sgid s))
      \<and> list_all (slot_in_place E G_writable) (recorded (g_writable s))
      \<and> list_all (slot_in_place E G_readable) (recorded (g_readable s))
      \<and> list_all (slot_in_place E G_executable) (recorded (g_executable s)))"


text \<open>The number of entries of a tree, and the trees whose names are shorter than
  \<open>PATH_MAX\<close> (\<open>struct dirent\<close> holds names of at most 255 bytes).\<close>

primrec n_dirents :: "dirent \<Rightarrow> nat" where
  "n_dirents (Dirent n l t) =
     Suc (case map_option (map n_dirents) t of None \<Rightarrow> 0 | Some ns \<Rightarrow> sum_list ns)"

definition n_tree :: "dirent list option \<Rightarrow> nat" where
  "n_tree t = (case t of None \<Rightarrow> 0 | Some es \<Rightarrow> sum_list (map n_dirents es))"

primrec names_fit :: "dirent \<Rightarrow> bool" where
  "names_fit (Dirent n l t) =
     (length n < PATH_MAX \<and>
      (case map_option (map names_fit) t of None \<Rightarrow> True | Some bs \<Rightarrow> list_all id bs))"

definition names_fit_tree :: "dirent list option \<Rightarrow> bool" where
  "names_fit_tree t = (case t of None \<Rightarrow> True | Some es \<Rightarrow> list_all names_fit es)"

text \<open>No bucket counter can reach \<open>UINT_MAX\<close> within \<open>n\<close> further appends.\<close>

definition room_for :: "nat \<Rightarrow> state \<Rightarrow> bool" where
  "room_for n s =
     (unat (idx (g_suid s)) + n < 2 ^ 32 \<and> unat (idx (g_sgid s)) + n < 2 ^ 32
      \<and> unat (idx (g_writable s)) + n < 2 ^ 32 \<and> unat (idx (g_readable s)) + n < 2 ^ 32
      \<and> unat (idx (g_executable s)) + n < 2 ^ 32)"

text \<open>
  The outcome of a run started in \<open>s\<close> that either returns, with the invariant kept
  and room for \<open>m\<close> more appends, or ends with "Out of memory!" after an allocation
  request was refused.
\<close>

definition returns_or_oom :: "env \<Rightarrow> state \<Rightarrow> nat \<Rightarrow> fatal + state \<Rightarrow> bool" where
  "returns_or_oom E s m r =
     (case r of
        Inr s' \<Rightarrow> state_inv s' \<and> room_for m s' \<and> nalloc s \<le> nalloc s'
      | Inl x \<Rightarrow> x = OutOfMemory \<and> (\<exists>k \<ge> nalloc s. \<not> alloc_ok E k))"

text \<open>
  The walker's test for descending, on the answer of \<open>lstat\<close>; and a tree with
  everything removed that lies below an entry failing that test.
\<close>

definition descends :: "env \<Rightarrow> stat option \<Rightarrow> bool" where
  "descends E l =
     (case l of
        None \<Rightarrow> False
      | Some sb \<Rightarrow> S_ISDIR (st_mode sb) \<and> is_executable (who E) sb)"

primrec prune :: "env \<Rightarrow> dirent \<Rightarrow> dirent" where
  "prune E (Dirent n l t) =
     Dirent n l (if descends E l then map_option (map (prune E)) t else None)"

text \<open>No written slot of a bucket holds the \<open>stat\<close> of a symbolic link.\<close>

definition slot_no_symlink :: "entry_t option \<Rightarrow> bool" where
  "slot_no_symlink x =
     (case x of None \<Rightarrow> True | Some ent \<Rightarrow> \<not> S_ISLNK (st_mode (statbuf ent)))"

definition no_symlink_recorded :: "state \<Rightarrow> bool" where
  "no_symlink_recorded s =
     (list_all slot_no_symlink (recorded (g_suid s))
      \<and> list_all slot_no_symlink (recorded (g_sgid s))
      \<and> list_all slot_no_symlink (recorded (g_writable s))
      \<and> list_all slot_no_symlink (recorded (g_readable s))
      \<and> list_all slot_no_symlink (recorded (g_executable s)))"

section \<open>A concrete scan\<close>

text \<open>
  The identity and the objects of the scenarios of the spec's section 8: a set-uid file
  of mode 4755 and a file of mode 0666 owned by root, a file of mode 0700 owned by uid
  2000, a directory of mode 0110 owned by the identity with a file of mode 0666 in it;
  and with them a directory of mode 0700 owned by root with a file of mode 0666 in it, a
  symbolic link of mode 0777 on top of a listing, a name \<open>lstat\<close> fails on and a
  directory of mode 0711 that \<open>opendir\<close> fails on. \<open>ex_w\<close> is a set-uid file of mode 4777.
\<close>

definition ex_env :: env where
  "ex_env = \<lparr>who = \<lparr>g_uid = 1000, g_groups = [1000]\<rparr>,
     RECORD_LESS_INTERESTING = False, alloc_ok = (\<lambda>k. True)\<rparr>"

definition ex_a :: stat where "ex_a = \<lparr>st_mode = 0x89ED, st_uid = 0, st_gid = 0\<rparr>"
definition ex_b :: stat where "ex_b = \<lparr>st_mode = 0x81B6, st_uid = 0, st_gid = 0\<rparr>"
definition ex_c :: stat where "ex_c = \<lparr>st_mode = 0x81C0, st_uid = 2000, st_gid = 2000\<rparr>"
definition ex_d :: stat where "ex_d = \<lparr>st_mode = 0x4048, st_uid = 1000, st_gid = 1000\<rparr>"
definition ex_p :: stat where "ex_p = \<lparr>st_mode = 0x41C0, st_uid = 0, st_gid = 0\<rparr>"
definition ex_l :: stat where "ex_l = \<lparr>st_mode = 0xA1FF, st_uid = 0, st_gid = 0\<rparr>"
definition ex_u :: stat where "ex_u = \<lparr>st_mode = 0x41C9, st_uid = 0, st_gid = 0\<rparr>"

definition ex_w :: stat where "ex_w = \<lparr>st_mode = 0x89FF, st_uid = 0, st_gid = 0\<rparr>"

text \<open>
  Files owned by root: set-gid of mode 2777, set-uid and set-gid of mode 6755, readable
  and executable of mode 0555 and execute-only of mode 0111; and the build with
  \<open>RECORD_LESS_INTERESTING\<close>.
\<close>

definition ex_g :: stat where "ex_g = \<lparr>st_mode = 0x85FF, st_uid = 0, st_gid = 0\<rparr>"
definition ex_ug :: stat where "ex_ug = \<lparr>st_mode = 0x8DED, st_uid = 0, st_gid = 0\<rparr>"
definition ex_r :: stat where "ex_r = \<lparr>st_mode = 0x816D, st_uid = 0, st_gid = 0\<rparr>"
definition ex_x :: stat where "ex_x = \<lparr>st_mode = 0x8049, st_uid = 0, st_gid = 0\<rparr>"

text \<open>An allocator that refuses the second request of the process and no other.\<close>

definition ex_env_nodup :: env where
  "ex_env_nodup = ex_env\<lparr>alloc_ok := (\<lambda>k. k \<noteq> 1)\<rparr>"

definition ex_env_less :: env where
  "ex_env_less = ex_env\<lparr>RECORD_LESS_INTERESTING := True\<rparr>"

definition ex_tree :: "dirent list option" where
  "ex_tree = Some
     [Dirent ''.'' (Some ex_d) None,
      Dirent ''..'' (Some ex_d) None,
      Dirent ''a'' (Some ex_a) None,
      Dirent ''.b'' (Some ex_b) None,
      Dirent ''c'' (Some ex_c) None,
      Dirent ''d'' (Some ex_d) (Some [Dirent ''secret'' (Some ex_b) None]),
      Dirent ''p'' (Some ex_p) (Some [Dirent ''hidden'' (Some ex_b) None]),
      Dirent ''l'' (Some ex_l) (Some [Dirent ''target'' (Some ex_b) None]),
      Dirent ''gone'' None None,
      Dirent ''u'' (Some ex_u) None]"

text \<open>The state after the scan of \<open>ex_tree\<close> as \<open>/tmp/root\<close>, from the initial state.\<close>

definition ex_result :: state where
  "ex_result =
     \<lparr>g_suid = \<lparr>len = 1, idx = 1,
                head = [Some \<lparr>path = Some ''/tmp/root/a'', statbuf = ex_a\<rparr>]\<rparr>,
      g_sgid = g_empty,
      g_writable = \<lparr>len = 2, idx = 2,
                    head = [Some \<lparr>path = Some ''/tmp/root/.b'', statbuf = ex_b\<rparr>,
                            Some \<lparr>path = Some ''/tmp/root/d/secret'', statbuf = ex_b\<rparr>]\<rparr>,
      g_readable = g_empty,
      g_executable = g_empty,
      nalloc = 6,
      trace = [Opendir ''/tmp/root'', Lstat ''/tmp/root/a'', Lstat ''/tmp/root/.b'',
               Lstat ''/tmp/root/c'', Lstat ''/tmp/root/d'', Opendir ''/tmp/root/d'',
               Lstat ''/tmp/root/d/secret'', Closedir ''/tmp/root/d'', Lstat ''/tmp/root/p'',
               Lstat ''/tmp/root/l'', Lstat ''/tmp/root/gone'', Err_lstat ''/tmp/root/gone'',
               Lstat ''/tmp/root/u'', Opendir ''/tmp/root/u'', Err_opendir ''/tmp/root/u'',
               Closedir ''/tmp/root'']\<rparr>"

text \<open>
  Two arguments: \<open>/tmp/root\<close>, and the directory \<open>/tmp/root/p\<close> in it, which the identity
  cannot execute; and the state after both scans.
\<close>

definition ex_argv :: "(string option \<times> dirent list option) list" where
  "ex_argv =
     [(Some ''/tmp/root'', ex_tree),
      (Some ''/tmp/root/p'', Some [Dirent ''hidden'' (Some ex_b) None])]"

definition ex_result2 :: state where
  "ex_result2 =
     ex_result
       \<lparr>g_writable := \<lparr>len = 3, idx = 3,
                        head = [Some \<lparr>path = Some ''/tmp/root/.b'', statbuf = ex_b\<rparr>,
                                Some \<lparr>path = Some ''/tmp/root/d/secret'', statbuf = ex_b\<rparr>,
                                Some \<lparr>path = Some ''/tmp/root/p/hidden'', statbuf = ex_b\<rparr>]\<rparr>,
        nalloc := 8,
        trace := trace ex_result @
                 [Opendir ''/tmp/root/p'', Lstat ''/tmp/root/p/hidden'',
                  Closedir ''/tmp/root/p'']\<rparr>"

section \<open>Facts about the evaluator\<close>

lemma in_group_loop_set: "in_group_loop gs gid \<longleftrightarrow> gid \<in> set gs"
  by (induction gs) auto

lemma in_group_iff: "in_group u gid \<longleftrightarrow> gid \<in> set (g_groups u)"
  by (simp add: in_group_def in_group_loop_set)

lemma mask_bit: "(m AND 2 ^ n \<noteq> 0) \<longleftrightarrow> bit (m :: mode_t) n"
  by (simp add: and_exp_eq_0_iff_not_bit)

lemma x_bits:
  "(m AND S_IXOTH \<noteq> 0) \<longleftrightarrow> bit m 0"
  "(m AND S_IXGRP \<noteq> 0) \<longleftrightarrow> bit m 3"
  "(m AND S_IXUSR \<noteq> 0) \<longleftrightarrow> bit m 6"
  using mask_bit[of m 0] mask_bit[of m 3] mask_bit[of m 6]
  by (simp_all add: S_IXOTH_def S_IXGRP_def S_IXUSR_def)

lemma w_bits:
  "(m AND S_IWOTH \<noteq> 0) \<longleftrightarrow> bit m 1"
  "(m AND S_IWGRP \<noteq> 0) \<longleftrightarrow> bit m 4"
  "(m AND S_IWUSR \<noteq> 0) \<longleftrightarrow> bit m 7"
  using mask_bit[of m 1] mask_bit[of m 4] mask_bit[of m 7]
  by (simp_all add: S_IWOTH_def S_IWGRP_def S_IWUSR_def)

lemma r_bits:
  "(m AND S_IROTH \<noteq> 0) \<longleftrightarrow> bit m 2"
  "(m AND S_IRGRP \<noteq> 0) \<longleftrightarrow> bit m 5"
  "(m AND S_IRUSR \<noteq> 0) \<longleftrightarrow> bit m 8"
  using mask_bit[of m 2] mask_bit[of m 5] mask_bit[of m 8]
  by (simp_all add: S_IROTH_def S_IRGRP_def S_IRUSR_def)

lemma s_bits:
  "(m AND S_ISGID \<noteq> 0) \<longleftrightarrow> bit m 10"
  "(m AND S_ISUID \<noteq> 0) \<longleftrightarrow> bit m 11"
  using mask_bit[of m 10] mask_bit[of m 11]
  by (simp_all add: S_ISGID_def S_ISUID_def)

lemma is_executable_bits:
  "is_executable u sb \<longleftrightarrow>
     g_uid u = 0 \<or> bit (st_mode sb) 0
     \<or> (bit (st_mode sb) 6 \<and> st_uid sb = g_uid u)
     \<or> (bit (st_mode sb) 3 \<and> st_gid sb \<in> set (g_groups u))"
  unfolding is_executable_def x_bits in_group_iff by auto

lemma is_writable_bits:
  "is_writable u sb \<longleftrightarrow>
     bit (st_mode sb) 1
     \<or> (bit (st_mode sb) 7 \<and> st_uid sb = g_uid u)
     \<or> (bit (st_mode sb) 4 \<and> st_gid sb \<in> set (g_groups u))"
  unfolding is_writable_def w_bits in_group_iff by auto

lemma is_readable_bits:
  "is_readable u sb \<longleftrightarrow>
     bit (st_mode sb) 2
     \<or> (bit (st_mode sb) 8 \<and> st_uid sb = g_uid u)
     \<or> (bit (st_mode sb) 5 \<and> st_gid sb \<in> set (g_groups u))"
  unfolding is_readable_def r_bits in_group_iff by auto

text \<open>The code's predicates are the spec's.\<close>

lemma evaluator_is_spec:
  "is_executable u sb = can_execute u sb"
  "is_writable u sb = can_write u sb"
  "is_readable u sb = can_read u sb"
  "is_setuid u sb = is_setuid_executable u sb"
  "is_setgid u sb = is_setgid_executable u sb"
  by (simp_all add: is_executable_bits is_writable_bits is_readable_bits is_setuid_def
      is_setgid_def s_bits can_execute_def can_write_def can_read_def
      is_setuid_executable_def is_setgid_executable_def)

text \<open>
  C2. \<open>is_executable\<close> (the spec's \<open>can_execute\<close>) is true exactly when the identity's
  uid is 0, or the other-execute bit (bit 0 of the mode) is set, or the owner-execute bit
  (bit 6) is set and the object's uid is the identity's, or the group-execute bit
  (bit 3) is set and the object's gid is in the identity's group list. For uid 0 it is
  true whatever the mode, the owner and the group are.
\<close>

theorem C2_is_executable:
  "(is_executable u sb \<longleftrightarrow>
      g_uid u = 0 \<or> bit (st_mode sb) 0
      \<or> (bit (st_mode sb) 6 \<and> st_uid sb = g_uid u)
      \<or> (bit (st_mode sb) 3 \<and> st_gid sb \<in> set (g_groups u)))
   \<and> is_executable (u\<lparr>g_uid := 0\<rparr>) sb"
  by (simp add: is_executable_bits)

text \<open>
  C3. \<open>is_writable\<close> and \<open>is_readable\<close> (the spec's \<open>can_write\<close> and \<open>can_read\<close>) use
  the same other / owner / group logic on the write bits (1, 7, 4) and the read bits
  (2, 8, 5), and the identity's uid enters only through the comparison with the owner:
  there is no case for uid 0, so that root is denied on an object of mode 0.
\<close>

theorem C3_is_writable_is_readable:
  "(is_writable u sb \<longleftrightarrow>
      bit (st_mode sb) 1
      \<or> (bit (st_mode sb) 7 \<and> st_uid sb = g_uid u)
      \<or> (bit (st_mode sb) 4 \<and> st_gid sb \<in> set (g_groups u)))
   \<and> (is_readable u sb \<longleftrightarrow>
      bit (st_mode sb) 2
      \<or> (bit (st_mode sb) 8 \<and> st_uid sb = g_uid u)
      \<or> (bit (st_mode sb) 5 \<and> st_gid sb \<in> set (g_groups u)))
   \<and> is_executable (u\<lparr>g_uid := 0\<rparr>) (sb\<lparr>st_mode := 0\<rparr>)
   \<and> \<not> is_writable (u\<lparr>g_uid := 0\<rparr>) (sb\<lparr>st_mode := 0\<rparr>)
   \<and> \<not> is_readable (u\<lparr>g_uid := 0\<rparr>) (sb\<lparr>st_mode := 0\<rparr>)"
proof -
  have w: "is_writable v t \<longleftrightarrow>
      bit (st_mode t) 1 \<or> (bit (st_mode t) 7 \<and> st_uid t = g_uid v)
      \<or> (bit (st_mode t) 4 \<and> st_gid t \<in> set (g_groups v))" for v t
    unfolding is_writable_def w_bits in_group_iff by auto
  have r: "is_readable v t \<longleftrightarrow>
      bit (st_mode t) 2 \<or> (bit (st_mode t) 8 \<and> st_uid t = g_uid v)
      \<or> (bit (st_mode t) 5 \<and> st_gid t \<in> set (g_groups v))" for v t
    unfolding is_readable_def r_bits in_group_iff by auto
  show ?thesis
    by (simp add: w r is_executable_bits)
qed

section \<open>Facts about the store\<close>

lemma unat_succ32: "unat ((i::32 word) + 1) = (if unat i = 4294967295 then 0 else unat i + 1)"
proof -
  have "unat i < 2 ^ 32" using unsigned_less[of i] by simp
  then show ?thesis by (simp add: unat_plus_if')
qed

lemma unat_max32: "i = 4294967295 \<longleftrightarrow> unat (i :: 32 word) = 4294967295"
proof -
  have "unat (4294967295 :: 32 word) = 4294967295" by simp
  then show ?thesis by (metis word_unat_eq_iff)
qed

lemma grow_cases:
  fixes i l :: "32 word"
  assumes "i \<le> l"
  shows "(i + 1 > l \<and> l = i \<and> i \<noteq> 4294967295 \<and> unat (i + 1) = unat i + 1)
       \<or> (\<not> i + 1 > l \<and> i = 4294967295 \<and> l = 4294967295)
       \<or> (\<not> i + 1 > l \<and> i \<noteq> 4294967295 \<and> unat i < unat l \<and> unat (i + 1) = unat i + 1)"
proof -
  have "unat l < 2 ^ 32" using unsigned_less[of l] by simp
  then have l: "unat l \<le> 4294967295" by simp
  have i: "unat i \<le> unat l" using assms by (simp add: word_le_nat_alt)
  show ?thesis
  proof (cases "unat i = 4294967295")
    case True
    with i l have "unat l = 4294967295" by simp
    with True show ?thesis by (simp add: unat_max32 word_less_nat_alt unat_succ32)
  next
    case False
    then have s: "unat (i + 1) = unat i + 1" by (simp add: unat_succ32)
    show ?thesis
    proof (cases "unat i = unat l")
      case True
      then have "l = i" by (simp add: word_unat_eq_iff)
      with False s show ?thesis by (simp add: unat_max32 word_less_nat_alt)
    next
      case f2: False
      with i have "unat i < unat l" by simp
      with False s show ?thesis by (simp add: unat_max32 word_less_nat_alt)
    qed
  qed
qed

lemma list_update_snoc: "length xs = n \<Longrightarrow> (xs @ [a])[n := v] = xs @ [v]"
  by auto

lemma record_access_eq:
  assumes "entries_inv (deref s b)"
  shows "record_access E b p sb s =
     (let e = deref s b in
      if idx e = 4294967295 then Inl OutOfBounds
      else if idx e = len e
        then (if alloc_ok E (nalloc s)
              then Inr (store b
                     (e\<lparr>len := len e + 1, idx := idx e + 1,
                        head := head e @ [Some \<lparr>path = strdup (alloc_ok E) (Suc (nalloc s)) p,
                                                    statbuf = sb\<rparr>]\<rparr>)
                     (s\<lparr>nalloc := Suc (Suc (nalloc s))\<rparr>))
              else Inl OutOfMemory)
      else Inr (store b
             (e\<lparr>idx := idx e + 1,
                head := (head e)[unat (idx e) :=
                          Some \<lparr>path = strdup (alloc_ok E) (nalloc s) p, statbuf = sb\<rparr>]\<rparr>)
             (s\<lparr>nalloc := Suc (nalloc s)\<rparr>)))"
proof -
  let ?e = "deref s b"
  have inv: "idx ?e \<le> len ?e" "length (head ?e) = unat (len ?e)"
    using assms by (simp_all add: entries_inv_def)
  consider
      (grow) "idx ?e + 1 > len ?e" "len ?e = idx ?e" "idx ?e \<noteq> 4294967295"
             "unat (idx ?e + 1) = unat (idx ?e) + 1"
    | (wrap) "\<not> idx ?e + 1 > len ?e" "idx ?e = 4294967295" "len ?e = 4294967295"
    | (room) "\<not> idx ?e + 1 > len ?e" "idx ?e \<noteq> 4294967295" "unat (idx ?e) < unat (len ?e)"
    using grow_cases[OF inv(1)] by blast
  then show ?thesis
  proof cases
    case grow
    then show ?thesis using inv(2)
      by (simp add: record_access_def Let_def realloc_def list_update_snoc)
  next
    case wrap
    then show ?thesis using inv(2)
      by (simp add: record_access_def Let_def)
  next
    case room
    then have "idx ?e \<noteq> len ?e" by auto
    with room show ?thesis using inv(2)
      by (simp add: record_access_def Let_def)
  qed
qed

lemma deref_store [simp]: "deref (store b e s) b' = (if b' = b then e else deref s b')"
  by (cases b; cases b'; simp)

lemma store_fields [simp]:
  "trace (store b e s) = trace s" "nalloc (store b e s) = nalloc s"
  by (cases b; simp)+

lemma deref_upd [simp]:
  "deref (s\<lparr>nalloc := n\<rparr>) b = deref s b" "deref (s\<lparr>trace := t\<rparr>) b = deref s b"
  by (cases b; simp)+

lemma state_inv_deref: "state_inv s \<longleftrightarrow> (\<forall>b. entries_inv (deref s b))"
proof
  assume "state_inv s"
  then show "\<forall>b. entries_inv (deref s b)"
    by (auto simp: state_inv_def intro: entries_ptr.induct)
next
  assume a: "\<forall>b. entries_inv (deref s b)"
  show "state_inv s"
    using a[rule_format, of G_suid] a[rule_format, of G_sgid] a[rule_format, of G_writable]
      a[rule_format, of G_readable] a[rule_format, of G_executable]
    by (simp add: state_inv_def)
qed

text \<open>What a successful append does.\<close>

lemma record_access_Inr:
  assumes inv: "entries_inv (deref s b)" and r: "record_access E b p sb s = Inr s'"
  shows "idx (deref s b) \<noteq> 4294967295"
    and "b' \<noteq> b \<Longrightarrow> deref s' b' = deref s b'"
    and "trace s' = trace s"
    and "nalloc s < nalloc s'"
    and "idx (deref s' b) = idx (deref s b) + 1"
    and "unat (idx (deref s' b)) = unat (idx (deref s b)) + 1"
    and "head (deref s' b) ! unat (idx (deref s b)) =
           Some \<lparr>path = strdup (alloc_ok E) (nalloc s' - 1) p, statbuf = sb\<rparr>"
    and "i < unat (idx (deref s b)) \<Longrightarrow> head (deref s' b) ! i = head (deref s b) ! i"
    and "entries_inv (deref s' b)"
    and "len (deref s' b) = (if idx (deref s b) = len (deref s b) then len (deref s b) + 1 else len (deref s b))"
proof -
  let ?e = "deref s b"
  have ne: "idx ?e \<noteq> 4294967295"
    using r record_access_eq[OF inv, of E p sb] by (auto simp: Let_def split: if_splits)
  then have su: "unat (idx ?e + 1) = unat (idx ?e) + 1"
    by (simp add: unat_succ32 unat_max32)
  have il: "unat (idx ?e) \<le> unat (len ?e)" "length (head ?e) = unat (len ?e)"
    using inv by (simp_all add: entries_inv_def word_le_nat_alt)
  show "idx ?e \<noteq> 4294967295" by (rule ne)
  consider (grow) "idx ?e = len ?e" "alloc_ok E (nalloc s)"
      "s' = store b (?e\<lparr>len := len ?e + 1, idx := idx ?e + 1,
                        head := head ?e @ [Some \<lparr>path = strdup (alloc_ok E) (Suc (nalloc s)) p,
                                                    statbuf = sb\<rparr>]\<rparr>)
                     (s\<lparr>nalloc := Suc (Suc (nalloc s))\<rparr>)"
    | (room) "idx ?e \<noteq> len ?e"
      "s' = store b (?e\<lparr>idx := idx ?e + 1,
                head := (head ?e)[unat (idx ?e) :=
                          Some \<lparr>path = strdup (alloc_ok E) (nalloc s) p, statbuf = sb\<rparr>]\<rparr>)
             (s\<lparr>nalloc := Suc (nalloc s)\<rparr>)"
    using r ne record_access_eq[OF inv, of E p sb] by (auto simp: Let_def split: if_splits)
  note cs = this
  show "b' \<noteq> b \<Longrightarrow> deref s' b' = deref s b'" by (cases rule: cs) simp_all
  show "trace s' = trace s" by (cases rule: cs) simp_all
  show "nalloc s < nalloc s'" by (cases rule: cs) simp_all
  show "idx (deref s' b) = idx ?e + 1" by (cases rule: cs) simp_all
  then show "unat (idx (deref s' b)) = unat (idx ?e) + 1" using su by simp
  show "head (deref s' b) ! unat (idx ?e) =
           Some \<lparr>path = strdup (alloc_ok E) (nalloc s' - 1) p, statbuf = sb\<rparr>"
  proof (cases rule: cs)
    case grow
    then show ?thesis using il by (simp add: nth_append)
  next
    case room
    then have "unat (idx ?e) < length (head ?e)" using il by (auto simp: word_unat_eq_iff)
    with room show ?thesis by simp
  qed
  show "i < unat (idx ?e) \<Longrightarrow> head (deref s' b) ! i = head ?e ! i"
    using il by (cases rule: cs) (simp_all add: nth_append)
  show "entries_inv (deref s' b)"
  proof (cases rule: cs)
    case grow
    then show ?thesis using il su by (simp add: entries_inv_def)
  next
    case room
    then have "unat (idx ?e) < unat (len ?e)" using il by (auto simp: word_unat_eq_iff)
    with room show ?thesis using il su by (simp add: entries_inv_def word_le_nat_alt)
  qed
  show "len (deref s' b) = (if idx ?e = len ?e then len ?e + 1 else len ?e)"
    by (cases rule: cs) simp_all
qed

lemma record_access_Inl:
  assumes inv: "entries_inv (deref s b)" and r: "record_access E b p sb s = Inl x"
  shows "(x = OutOfBounds \<and> idx (deref s b) = 4294967295)
       \<or> (x = OutOfMemory \<and> idx (deref s b) = len (deref s b) \<and> \<not> alloc_ok E (nalloc s))"
  using r record_access_eq[OF inv, of E p sb] by (auto simp: Let_def split: if_splits)

lemma record_access_recorded:
  assumes inv: "entries_inv (deref s b)" and r: "record_access E b p sb s = Inr s'"
  shows "recorded (deref s' b) =
           recorded (deref s b) @ [Some \<lparr>path = strdup (alloc_ok E) (nalloc s' - 1) p, statbuf = sb\<rparr>]"
proof -
  note f = record_access_Inr[OF inv r]
  let ?n = "unat (idx (deref s b))"
  have le: "?n \<le> length (head (deref s b))"
    using inv by (simp add: entries_inv_def word_le_nat_alt)
  have lt: "?n < length (head (deref s' b))"
    using f(9) f(6) by (simp add: entries_inv_def word_le_nat_alt)
  have "take (Suc ?n) (head (deref s' b)) = take ?n (head (deref s' b)) @ [head (deref s' b) ! ?n]"
    using lt by (simp add: take_Suc_conv_app_nth)
  moreover have "take ?n (head (deref s' b)) = take ?n (head (deref s b))"
    using le lt f(8) by (intro nth_take_lemma) simp_all
  ultimately show ?thesis using f(6) f(7) by (simp add: recorded_def)
qed


section \<open>Facts about the walker\<close>

text \<open>A reflexive and transitive relation that every trace output and every append
  respects holds between the states before and after a scan.\<close>

lemma scan_rel:
  assumes rf: "\<And>s. Q s s"
    and tr: "\<And>s s' s''. Q s s' \<Longrightarrow> Q s' s'' \<Longrightarrow> Q s s''"
    and ev: "\<And>s evs. Q s (s\<lparr>trace := trace s @ evs\<rparr>)"
    and rc: "\<And>p sb s s'. \<not> S_ISLNK (st_mode sb) \<Longrightarrow>
               record_access_level E p sb s = Inr s' \<Longrightarrow> Q s s'"
  shows "scan_directory E dir t s = Inr s' \<Longrightarrow> Q s s'"
    and "readdir_loop E dir es s = Inr s' \<Longrightarrow> Q s s'"
    and "loop_body E dir pe s = Inr s' \<Longrightarrow> Q s s'"
proof -
  have "scan_directory F d u x = Inr x' \<Longrightarrow> F = E \<Longrightarrow> Q x x'"
    and "readdir_loop F d ds x = Inr x' \<Longrightarrow> F = E \<Longrightarrow> Q x x'"
    and "loop_body F d de x = Inr x' \<Longrightarrow> F = E \<Longrightarrow> Q x x'" for F d u x x' ds de
  proof (induction F d u x and F d ds x and F d de x arbitrary: x' and x' and x'
         rule: scan_directory_readdir_loop_loop_body.induct)
    case (1 E dir s)
    then show ?case using ev[of s "[Opendir dir, Err_opendir dir]"] by auto
  next
    case (2 F dir es s)
    from "2.prems"(1) obtain s1 where
      s1: "readdir_loop F dir es (s\<lparr>trace := trace s @ [Opendir dir]\<rparr>) = Inr s1"
      and s': "x' = s1\<lparr>trace := trace s1 @ [Closedir dir]\<rparr>"
      by (auto split: sum.splits)
    have "Q (s\<lparr>trace := trace s @ [Opendir dir]\<rparr>) s1" by (rule "2.IH"[OF s1 "2.prems"(2)])
    then have "Q s s1" using ev tr by blast
    then show ?case unfolding s' using ev tr by blast
  next
    case (3 F dir s)
    then show ?case using rf by simp
  next
    case (4 F dir pe es s)
    from "4.prems"(1) obtain s1 where
      s1: "loop_body F dir pe s = Inr s1" and r: "readdir_loop F dir es s1 = Inr x'"
      by (auto split: sum.splits)
    show ?case using "4.IH"(1)[OF s1 "4.prems"(2)] "4.IH"(2)[OF s1 r "4.prems"(2)] tr by blast
  next
    case (5 F dir name st sub s)
    note eq = "5.prems"(1) and FE = "5.prems"(2)
    show ?case
    proof (cases "skip_name name")
      case True
      with eq show ?thesis using rf by simp
    next
      case ns: False
      show ?thesis
      proof (cases "name_too_long dir name")
        case True
        with ns eq show ?thesis using ev by (auto split: if_splits)
      next
        case ntl: False
        from ns ntl eq have fit: "\<not> PATH_MAX + 1 < length dir"
          "\<not> PATH_MAX + 1 < length (canonical_path dir name) + 1"
          by (auto split: if_splits)
        show ?thesis
        proof (cases st)
          case None
          with ns ntl fit eq show ?thesis using ev by auto
        next
          case (Some sb)
          show ?thesis
          proof (cases "S_ISLNK (st_mode sb)")
            case True
            with Some ns ntl fit eq show ?thesis using ev by auto
          next
            case nl: False
            let ?p = "canonical_path dir name"
            let ?s1 = "s\<lparr>trace := trace s @ [Lstat ?p]\<rparr>"
            from Some ns ntl fit nl eq obtain s2 where
              s2: "record_access_level F ?p sb ?s1 = Inr s2"
              and rest: "(if S_ISDIR (st_mode sb) \<and> is_executable (who F) sb
                          then scan_directory F ?p sub s2 else Inr s2) = Inr x'"
              by (auto split: sum.splits)
            have "Q ?s1 s2" using rc[OF nl] s2 FE by simp
            then have q2: "Q s s2" using ev tr by blast
            show ?thesis
            proof (cases "S_ISDIR (st_mode sb) \<and> is_executable (who F) sb")
              case True
              with rest have "scan_directory F ?p sub s2 = Inr x'" by simp
              from "5.IH"[OF ns fit(1) ntl fit(2) Some nl s2 True this FE] q2
              show ?thesis using tr by blast
            next
              case False
              with rest q2 show ?thesis by simp
            qed
          qed
        qed
      qed
    qed
  qed
  then show "scan_directory E dir t s = Inr s' \<Longrightarrow> Q s s'"
    and "readdir_loop E dir es s = Inr s' \<Longrightarrow> Q s s'"
    and "loop_body E dir pe s = Inr s' \<Longrightarrow> Q s s'"
    by blast+
qed

lemma state_inv_upd [simp]:
  "state_inv (s\<lparr>trace := t\<rparr>) = state_inv s" "state_inv (s\<lparr>nalloc := n\<rparr>) = state_inv s"
  by (simp_all add: state_inv_def)

lemma record_access_level_bucket:
  "record_access_level E p sb s =
     (case bucket_of E sb of None \<Rightarrow> Inr s | Some b \<Rightarrow> record_access E b p sb s)"
  by (simp add: record_access_level_def bucket_of_def priority_def evaluator_is_spec)

lemma bucket_of_None: "bucket_of E sb = None \<longleftrightarrow> (\<forall>b. \<not> matches E sb b)"
proof -
  have "set priority = UNIV"
    using entries_ptr.exhaust by (auto simp: priority_def)
  then show ?thesis by (simp add: bucket_of_def find_None_iff)
qed

lemma bucket_of_Some:
  "bucket_of E sb = Some b \<longleftrightarrow>
     (\<exists>i < length priority. priority ! i = b \<and> matches E sb b
        \<and> (\<forall>j < i. \<not> matches E sb (priority ! j)))"
  by (auto simp: bucket_of_def find_Some_iff)

lemma state_inv_record_access:
  assumes "state_inv s" "record_access E b p sb s = Inr s'"
  shows "state_inv s'"
proof -
  have inv: "entries_inv (deref s b')" for b' using assms(1) by (simp add: state_inv_deref)
  have "entries_inv (deref s' b')" for b'
    using record_access_Inr(2,9)[OF inv assms(2)] inv by (cases "b' = b") auto
  then show ?thesis by (simp add: state_inv_deref)
qed

lemma record_access_prefix:
  assumes "state_inv s" "record_access E b p sb s = Inr s'"
  shows "prefix (recorded (deref s b')) (recorded (deref s' b'))"
proof -
  have inv: "entries_inv (deref s b)" using assms(1) by (simp add: state_inv_deref)
  show ?thesis
    using record_access_Inr(2)[OF inv assms(2), of b'] record_access_recorded[OF inv assms(2)]
    by (cases "b' = b") auto
qed

lemma record_access_level_Inr:
  assumes "state_inv s" "record_access_level E p sb s = Inr s'"
  shows "state_inv s'"
    and "prefix (recorded (deref s b')) (recorded (deref s' b'))"
    and "trace s' = trace s"
    and "nalloc s \<le> nalloc s'"
proof -
  have inv: "entries_inv (deref s b)" for b using assms(1) by (simp add: state_inv_deref)
  show "state_inv s'" using assms state_inv_record_access
    by (auto simp: record_access_level_bucket split: option.splits)
  show "prefix (recorded (deref s b')) (recorded (deref s' b'))"
    using assms record_access_prefix
    by (auto simp: record_access_level_bucket split: option.splits)
  show "trace s' = trace s" using assms(2) record_access_Inr(3)[OF inv]
    by (auto simp: record_access_level_bucket split: option.splits)
  show "nalloc s \<le> nalloc s'" using assms(2) record_access_Inr(4)[OF inv]
    by (fastforce simp: record_access_level_bucket split: option.splits)
qed

lemma scan_preserves:
  assumes "state_inv s"
  shows "scan_directory E dir t s = Inr s' \<Longrightarrow>
           state_inv s' \<and> (\<forall>b. prefix (recorded (deref s b)) (recorded (deref s' b)))
           \<and> prefix (trace s) (trace s') \<and> nalloc s \<le> nalloc s'"
    and "readdir_loop E dir es s = Inr s' \<Longrightarrow>
           state_inv s' \<and> (\<forall>b. prefix (recorded (deref s b)) (recorded (deref s' b)))
           \<and> prefix (trace s) (trace s') \<and> nalloc s \<le> nalloc s'"
    and "loop_body E dir pe s = Inr s' \<Longrightarrow>
           state_inv s' \<and> (\<forall>b. prefix (recorded (deref s b)) (recorded (deref s' b)))
           \<and> prefix (trace s) (trace s') \<and> nalloc s \<le> nalloc s'"
proof -
  define Q where "Q s s' \<longleftrightarrow>
     (state_inv s \<longrightarrow> state_inv s' \<and> (\<forall>b. prefix (recorded (deref s b)) (recorded (deref s' b)))
           \<and> prefix (trace s) (trace s') \<and> nalloc s \<le> nalloc s')" for s s'
  have rf: "Q s s" for s by (simp add: Q_def)
  have tr: "Q s s' \<Longrightarrow> Q s' s'' \<Longrightarrow> Q s s''" for s s' s''
    unfolding Q_def by (meson prefix_order.order_trans le_trans)
  have ev: "Q s (s\<lparr>trace := trace s @ evs\<rparr>)" for s evs by (simp add: Q_def)
  have rc: "record_access_level E p sb s = Inr s' \<Longrightarrow> Q s s'" for E p sb s s'
    unfolding Q_def using record_access_level_Inr[of s E p sb s'] by auto
  have 1: "scan_directory E dir t s = Inr s' \<Longrightarrow> Q s s'"
    by (rule scan_rel(1)[where Q = Q]) (blast intro: rf tr ev rc)+
  have 2: "readdir_loop E dir es s = Inr s' \<Longrightarrow> Q s s'"
    by (rule scan_rel(2)[where Q = Q]) (blast intro: rf tr ev rc)+
  have 3: "loop_body E dir pe s = Inr s' \<Longrightarrow> Q s s'"
    by (rule scan_rel(3)[where Q = Q]) (blast intro: rf tr ev rc)+
  show "scan_directory E dir t s = Inr s' \<Longrightarrow>
           state_inv s' \<and> (\<forall>b. prefix (recorded (deref s b)) (recorded (deref s' b)))
           \<and> prefix (trace s) (trace s') \<and> nalloc s \<le> nalloc s'"
    using 1 assms unfolding Q_def by blast
  show "readdir_loop E dir es s = Inr s' \<Longrightarrow>
           state_inv s' \<and> (\<forall>b. prefix (recorded (deref s b)) (recorded (deref s' b)))
           \<and> prefix (trace s) (trace s') \<and> nalloc s \<le> nalloc s'"
    using 2 assms unfolding Q_def by blast
  show "loop_body E dir pe s = Inr s' \<Longrightarrow>
           state_inv s' \<and> (\<forall>b. prefix (recorded (deref s b)) (recorded (deref s' b)))
           \<and> prefix (trace s) (trace s') \<and> nalloc s \<le> nalloc s'"
    using 3 assms unfolding Q_def by blast
qed

lemma buckets_in_place_deref:
  "buckets_in_place E s \<longleftrightarrow> (\<forall>b. list_all (slot_in_place E b) (recorded (deref s b)))"
proof
  assume "buckets_in_place E s"
  then show "\<forall>b. list_all (slot_in_place E b) (recorded (deref s b))"
    by (auto simp: buckets_in_place_def intro: entries_ptr.induct)
next
  assume a: "\<forall>b. list_all (slot_in_place E b) (recorded (deref s b))"
  show "buckets_in_place E s"
    using a[rule_format, of G_suid] a[rule_format, of G_sgid] a[rule_format, of G_writable]
      a[rule_format, of G_readable] a[rule_format, of G_executable]
    by (simp add: buckets_in_place_def)
qed

lemma buckets_in_place_upd [simp]:
  "buckets_in_place E (s\<lparr>trace := t\<rparr>) = buckets_in_place E s"
  by (simp add: buckets_in_place_def)

lemma buckets_in_place_record_access_level:
  assumes inv: "state_inv s" and ip: "buckets_in_place E s"
    and r: "record_access_level E p sb s = Inr s'"
  shows "buckets_in_place E s'"
proof (cases "bucket_of E sb")
  case None
  with r ip show ?thesis by (simp add: record_access_level_bucket)
next
  case (Some b)
  then have r': "record_access E b p sb s = Inr s'"
    using r by (simp add: record_access_level_bucket)
  have i: "entries_inv (deref s b)" using inv by (simp add: state_inv_deref)
  have "list_all (slot_in_place E b') (recorded (deref s' b'))" for b'
  proof (cases "b' = b")
    case True
    then show ?thesis
      using record_access_recorded[OF i r'] ip Some
      by (simp add: buckets_in_place_deref slot_in_place_def)
  next
    case False
    then show ?thesis
      using record_access_Inr(2)[OF i r' False] ip by (simp add: buckets_in_place_deref)
  qed
  then show ?thesis by (simp add: buckets_in_place_deref)
qed

lemma scan_in_place:
  assumes "state_inv s" "buckets_in_place E s" "scan_directory E dir t s = Inr s'"
  shows "buckets_in_place E s'"
proof -
  define Q where "Q s s' \<longleftrightarrow>
     (state_inv s \<and> buckets_in_place E s \<longrightarrow> state_inv s' \<and> buckets_in_place E s')" for s s'
  have rf: "Q s s" for s by (simp add: Q_def)
  have tr: "Q s s' \<Longrightarrow> Q s' s'' \<Longrightarrow> Q s s''" for s s' s''
    unfolding Q_def by blast
  have ev: "Q s (s\<lparr>trace := trace s @ evs\<rparr>)" for s evs by (simp add: Q_def)
  have rc: "record_access_level E p sb s = Inr s' \<Longrightarrow> Q s s'" for p sb s s'
    unfolding Q_def
    using record_access_level_Inr(1)[of s E p sb s']
      buckets_in_place_record_access_level[of s E p sb s']
    by blast
  have "Q s s'"
    by (rule scan_rel(1)[where Q = Q, OF _ _ _ _ assms(3)]) (blast intro: rf tr ev rc)+
  then show ?thesis using assms(1,2) by (simp add: Q_def)
qed

lemma in_place_exclusive:
  assumes ip: "buckets_in_place E s"
    and 1: "Some e1 \<in> set (recorded (deref s b1))"
    and 2: "Some e2 \<in> set (recorded (deref s b2))"
    and eq: "statbuf e1 = statbuf e2"
  shows "b1 = b2"
proof -
  have "slot_in_place E b1 (Some e1)" "slot_in_place E b2 (Some e2)"
    using ip 1 2 by (auto simp: buckets_in_place_deref list_all_iff)
  then show ?thesis using eq by (simp add: slot_in_place_def)
qed

lemma ex_scan: "scan_directory ex_env ''/tmp/root'' ex_tree init_state = Inr ex_result"
  by code_simp

text \<open>
  C1. \<open>record_access_level\<close> follows the spec's priority chain: set-uid executable
  (\<open>can_execute\<close> and bit 11), then set-gid executable (\<open>can_execute\<close> and bit 10), then
  \<open>can_write\<close>, then, with \<open>RECORD_LESS_INTERESTING\<close> only, \<open>can_read\<close> and \<open>can_execute\<close>.
  It appends to the first bucket of that order whose criterion holds and to no other,
  and when no criterion holds it leaves the state as it is. Over a whole scan: every
  entry of every bucket holds a \<open>stat\<close> whose first matching bucket is the one it is
  in, so that two entries with the same \<open>stat\<close> are never in two different buckets.
\<close>

theorem C1_priority_chain:
  "record_access_level E p sb s =
     (case bucket_of E sb of None \<Rightarrow> Inr s | Some b \<Rightarrow> record_access E b p sb s)
   \<and> bucket_of E sb =
       (if can_execute (who E) sb \<and> bit (st_mode sb) 11 then Some G_suid
        else if can_execute (who E) sb \<and> bit (st_mode sb) 10 then Some G_sgid
        else if can_write (who E) sb then Some G_writable
        else if RECORD_LESS_INTERESTING E \<and> can_read (who E) sb then Some G_readable
        else if RECORD_LESS_INTERESTING E \<and> can_execute (who E) sb then Some G_executable
        else None)
   \<and> (bucket_of E sb = None \<longleftrightarrow> (\<forall>b. \<not> matches E sb b))
   \<and> (bucket_of E sb = Some b \<longleftrightarrow>
        (\<exists>i < length priority. priority ! i = b \<and> matches E sb b
           \<and> (\<forall>j < i. \<not> matches E sb (priority ! j))))
   \<and> (\<not> RECORD_LESS_INTERESTING E \<longrightarrow>
        bucket_of E sb \<noteq> Some G_readable \<and> bucket_of E sb \<noteq> Some G_executable)
   \<and> (state_inv s \<and> record_access_level E p sb s = Inr s' \<longrightarrow>
        (case bucket_of E sb of
           None \<Rightarrow> s' = s
         | Some b \<Rightarrow>
             recorded (deref s' b) =
               recorded (deref s b) @
                 [Some \<lparr>path = strdup (alloc_ok E) (nalloc s' - 1) p, statbuf = sb\<rparr>]
             \<and> (\<forall>b'. b' \<noteq> b \<longrightarrow> deref s' b' = deref s b')))
   \<and> buckets_in_place E init_state
   \<and> (state_inv s \<and> buckets_in_place E s \<and> scan_directory E dir t s = Inr s2 \<longrightarrow>
        buckets_in_place E s2)
   \<and> (buckets_in_place E s \<and> Some e1 \<in> set (recorded (deref s b1))
        \<and> Some e2 \<in> set (recorded (deref s b2)) \<and> statbuf e1 = statbuf e2 \<longrightarrow>
        b1 = b2)"
proof -
  have a: "state_inv s \<and> record_access_level E p sb s = Inr s' \<longrightarrow>
        (case bucket_of E sb of
           None \<Rightarrow> s' = s
         | Some b \<Rightarrow>
             recorded (deref s' b) =
               recorded (deref s b) @
                 [Some \<lparr>path = strdup (alloc_ok E) (nalloc s' - 1) p, statbuf = sb\<rparr>]
             \<and> (\<forall>b'. b' \<noteq> b \<longrightarrow> deref s' b' = deref s b'))"
  proof (cases "bucket_of E sb")
    case None
    then show ?thesis by (simp add: record_access_level_bucket)
  next
    case (Some b)
    show ?thesis
    proof (intro impI, elim conjE)
      assume inv: "state_inv s" and r: "record_access_level E p sb s = Inr s'"
      have i: "entries_inv (deref s b)" using inv by (simp add: state_inv_deref)
      have r': "record_access E b p sb s = Inr s'"
        using r Some by (simp add: record_access_level_bucket)
      show "case bucket_of E sb of None \<Rightarrow> s' = s
         | Some b \<Rightarrow>
             recorded (deref s' b) =
               recorded (deref s b) @
                 [Some \<lparr>path = strdup (alloc_ok E) (nalloc s' - 1) p, statbuf = sb\<rparr>]
             \<and> (\<forall>b'. b' \<noteq> b \<longrightarrow> deref s' b' = deref s b')"
        using Some record_access_recorded[OF i r'] record_access_Inr(2)[OF i r'] by simp
    qed
  qed
  have b: "\<not> RECORD_LESS_INTERESTING E \<longrightarrow>
        bucket_of E sb \<noteq> Some G_readable \<and> bucket_of E sb \<noteq> Some G_executable"
    by (simp add: bucket_of_def priority_def)
  have c: "buckets_in_place E init_state"
    by (simp add: buckets_in_place_def init_state_def recorded_def g_empty_def)
  have d: "bucket_of E sb =
       (if can_execute (who E) sb \<and> bit (st_mode sb) 11 then Some G_suid
        else if can_execute (who E) sb \<and> bit (st_mode sb) 10 then Some G_sgid
        else if can_write (who E) sb then Some G_writable
        else if RECORD_LESS_INTERESTING E \<and> can_read (who E) sb then Some G_readable
        else if RECORD_LESS_INTERESTING E \<and> can_execute (who E) sb then Some G_executable
        else None)"
    by (simp add: bucket_of_def priority_def is_setuid_executable_def
        is_setgid_executable_def)
  show ?thesis
    using a b c d record_access_level_bucket[of E p sb s] bucket_of_None[of E sb]
      bucket_of_Some[of E sb b] scan_in_place[of s E dir t s2]
      in_place_exclusive[of E s e1 b1 e2 b2]
    by blast
qed

theorem C1_priority_chain_witness:
  "state_inv init_state
   \<and> matches ex_env ex_w G_suid \<and> matches ex_env ex_w G_writable
   \<and> bucket_of ex_env ex_w = Some G_suid
   \<and> record_access_level ex_env ''/tmp/root/w'' ex_w init_state =
       Inr (init_state\<lparr>g_suid := \<lparr>len = 1, idx = 1,
              head = [Some \<lparr>path = Some ''/tmp/root/w'', statbuf = ex_w\<rparr>]\<rparr>, nalloc := 2\<rparr>)
   \<and> recorded (deref (init_state\<lparr>g_suid := \<lparr>len = 1, idx = 1,
              head = [Some \<lparr>path = Some ''/tmp/root/w'', statbuf = ex_w\<rparr>]\<rparr>, nalloc := 2\<rparr>) G_suid)
       = recorded (deref init_state G_suid) @ [Some \<lparr>path = Some ''/tmp/root/w'', statbuf = ex_w\<rparr>]
   \<and> matches ex_env ex_ug G_suid \<and> matches ex_env ex_ug G_sgid
   \<and> record_access_level ex_env ''/tmp/root/ug'' ex_ug init_state =
       Inr (init_state\<lparr>g_suid := \<lparr>len = 1, idx = 1,
              head = [Some \<lparr>path = Some ''/tmp/root/ug'', statbuf = ex_ug\<rparr>]\<rparr>, nalloc := 2\<rparr>)
   \<and> \<not> matches ex_env ex_g G_suid \<and> matches ex_env ex_g G_sgid \<and> matches ex_env ex_g G_writable
   \<and> bucket_of ex_env ex_g = Some G_sgid
   \<and> record_access_level ex_env ''/tmp/root/g'' ex_g init_state =
       Inr (init_state\<lparr>g_sgid := \<lparr>len = 1, idx = 1,
              head = [Some \<lparr>path = Some ''/tmp/root/g'', statbuf = ex_g\<rparr>]\<rparr>, nalloc := 2\<rparr>)
   \<and> recorded (deref (init_state\<lparr>g_sgid := \<lparr>len = 1, idx = 1,
              head = [Some \<lparr>path = Some ''/tmp/root/g'', statbuf = ex_g\<rparr>]\<rparr>, nalloc := 2\<rparr>) G_sgid)
       = recorded (deref init_state G_sgid) @ [Some \<lparr>path = Some ''/tmp/root/g'', statbuf = ex_g\<rparr>]
   \<and> record_access_level ex_env ''/tmp/root/.b'' ex_b init_state =
       Inr (init_state\<lparr>g_writable := \<lparr>len = 1, idx = 1,
              head = [Some \<lparr>path = Some ''/tmp/root/.b'', statbuf = ex_b\<rparr>]\<rparr>, nalloc := 2\<rparr>)
   \<and> bucket_of ex_env ex_c = None
   \<and> record_access_level ex_env ''/tmp/root/c'' ex_c init_state = Inr init_state
   \<and> \<not> RECORD_LESS_INTERESTING ex_env
   \<and> record_access_level ex_env ''/tmp/root/r'' ex_r init_state = Inr init_state
   \<and> record_access_level ex_env ''/tmp/root/x'' ex_x init_state = Inr init_state
   \<and> RECORD_LESS_INTERESTING ex_env_less
   \<and> matches ex_env_less ex_r G_readable \<and> matches ex_env_less ex_r G_executable
   \<and> record_access_level ex_env_less ''/tmp/root/r'' ex_r init_state =
       Inr (init_state\<lparr>g_readable := \<lparr>len = 1, idx = 1,
              head = [Some \<lparr>path = Some ''/tmp/root/r'', statbuf = ex_r\<rparr>]\<rparr>, nalloc := 2\<rparr>)
   \<and> record_access_level ex_env_less ''/tmp/root/x'' ex_x init_state =
       Inr (init_state\<lparr>g_executable := \<lparr>len = 1, idx = 1,
              head = [Some \<lparr>path = Some ''/tmp/root/x'', statbuf = ex_x\<rparr>]\<rparr>, nalloc := 2\<rparr>)
   \<and> buckets_in_place ex_env init_state
   \<and> scan_directory ex_env ''/tmp/root'' ex_tree init_state = Inr ex_result
   \<and> buckets_in_place ex_env ex_result
   \<and> Some \<lparr>path = Some ''/tmp/root/.b'', statbuf = ex_b\<rparr>
       \<in> set (recorded (deref ex_result G_writable))
   \<and> Some \<lparr>path = Some ''/tmp/root/d/secret'', statbuf = ex_b\<rparr>
       \<in> set (recorded (deref ex_result G_writable))"
proof -
  let ?s' = "init_state\<lparr>g_suid := \<lparr>len = 1, idx = 1,
              head = [Some \<lparr>path = Some ''/tmp/root/w'', statbuf = ex_w\<rparr>]\<rparr>, nalloc := 2\<rparr>"
  let ?sg = "init_state\<lparr>g_sgid := \<lparr>len = 1, idx = 1,
              head = [Some \<lparr>path = Some ''/tmp/root/g'', statbuf = ex_g\<rparr>]\<rparr>, nalloc := 2\<rparr>"
  have h1: "state_inv init_state" by code_simp
  have h3: "can_execute (who ex_env) ex_w \<and> bit (st_mode ex_w) 11 \<and> can_write (who ex_env) ex_w"
    by code_simp
  have h4: "can_execute (who ex_env) ex_ug \<and> bit (st_mode ex_ug) 11 \<and> bit (st_mode ex_ug) 10"
    by code_simp
  have h5: "can_execute (who ex_env) ex_g \<and> \<not> bit (st_mode ex_g) 11 \<and> bit (st_mode ex_g) 10
     \<and> can_write (who ex_env) ex_g" by code_simp
  have h6: "\<not> can_execute (who ex_env) ex_c \<and> \<not> can_write (who ex_env) ex_c
     \<and> \<not> RECORD_LESS_INTERESTING ex_env" by code_simp
  have h7: "can_execute (who ex_env) ex_r \<and> \<not> can_write (who ex_env) ex_r
     \<and> \<not> bit (st_mode ex_r) 11 \<and> \<not> bit (st_mode ex_r) 10
     \<and> can_execute (who ex_env) ex_x \<and> \<not> bit (st_mode ex_x) 11 \<and> \<not> bit (st_mode ex_x) 10
     \<and> \<not> can_write (who ex_env) ex_x \<and> \<not> can_read (who ex_env) ex_x
     \<and> can_read (who ex_env) ex_r \<and> \<not> bit (st_mode ex_b) 11 \<and> \<not> bit (st_mode ex_b) 10
     \<and> can_write (who ex_env) ex_b" by code_simp
  have h8: "who ex_env_less = who ex_env \<and> RECORD_LESS_INTERESTING ex_env_less
     \<and> alloc_ok ex_env_less = alloc_ok ex_env" by (simp add: ex_env_less_def)
  have g0: "G_suid \<noteq> G_sgid" by simp
  have r1: "record_access ex_env G_suid ''/tmp/root/w'' ex_w init_state = Inr ?s'" by code_simp
  have r2: "record_access ex_env G_suid ''/tmp/root/ug'' ex_ug init_state =
       Inr (init_state\<lparr>g_suid := \<lparr>len = 1, idx = 1,
              head = [Some \<lparr>path = Some ''/tmp/root/ug'', statbuf = ex_ug\<rparr>]\<rparr>, nalloc := 2\<rparr>)"
    by code_simp
  have r3: "record_access ex_env G_sgid ''/tmp/root/g'' ex_g init_state = Inr ?sg" by code_simp
  have r4: "record_access ex_env G_writable ''/tmp/root/.b'' ex_b init_state =
       Inr (init_state\<lparr>g_writable := \<lparr>len = 1, idx = 1,
              head = [Some \<lparr>path = Some ''/tmp/root/.b'', statbuf = ex_b\<rparr>]\<rparr>, nalloc := 2\<rparr>)"
    by code_simp
  have r5: "record_access ex_env_less G_readable ''/tmp/root/r'' ex_r init_state =
       Inr (init_state\<lparr>g_readable := \<lparr>len = 1, idx = 1,
              head = [Some \<lparr>path = Some ''/tmp/root/r'', statbuf = ex_r\<rparr>]\<rparr>, nalloc := 2\<rparr>)"
    by code_simp
  have r6: "record_access ex_env_less G_executable ''/tmp/root/x'' ex_x init_state =
       Inr (init_state\<lparr>g_executable := \<lparr>len = 1, idx = 1,
              head = [Some \<lparr>path = Some ''/tmp/root/x'', statbuf = ex_x\<rparr>]\<rparr>, nalloc := 2\<rparr>)"
    by code_simp
  have e1: "recorded (deref ?s' G_suid) =
      recorded (deref init_state G_suid) @ [Some \<lparr>path = Some ''/tmp/root/w'', statbuf = ex_w\<rparr>]"
    by code_simp
  have e2: "recorded (deref ?sg G_sgid) =
      recorded (deref init_state G_sgid) @ [Some \<lparr>path = Some ''/tmp/root/g'', statbuf = ex_g\<rparr>]"
    by code_simp
  have h9: "Some \<lparr>path = Some ''/tmp/root/.b'', statbuf = ex_b\<rparr>
       \<in> set (recorded (deref ex_result G_writable))
     \<and> Some \<lparr>path = Some ''/tmp/root/d/secret'', statbuf = ex_b\<rparr>
       \<in> set (recorded (deref ex_result G_writable))" by code_simp
  note w = C1_priority_chain[where E = ex_env and p = "''/tmp/root/w''" and sb = ex_w
      and s = init_state and b = G_suid and s' = ?s' and dir = "''/tmp/root''" and t = ex_tree
      and ?s2.0 = ex_result]
  note ug = C1_priority_chain[where E = ex_env and p = "''/tmp/root/ug''" and sb = ex_ug
      and s = init_state and b = G_suid and s' = init_state]
  note g = C1_priority_chain[where E = ex_env and p = "''/tmp/root/g''" and sb = ex_g
      and s = init_state and b = G_sgid and s' = ?sg]
  note wb = C1_priority_chain[where E = ex_env and p = "''/tmp/root/.b''" and sb = ex_b
      and s = init_state and b = G_writable and s' = init_state]
  note c = C1_priority_chain[where E = ex_env and p = "''/tmp/root/c''" and sb = ex_c
      and s = init_state and b = G_suid and s' = init_state]
  note r = C1_priority_chain[where E = ex_env and p = "''/tmp/root/r''" and sb = ex_r
      and s = init_state and b = G_suid and s' = init_state]
  note x = C1_priority_chain[where E = ex_env and p = "''/tmp/root/x''" and sb = ex_x
      and s = init_state and b = G_suid and s' = init_state]
  note lr = C1_priority_chain[where E = ex_env_less and p = "''/tmp/root/r''" and sb = ex_r
      and s = init_state and b = G_readable and s' = init_state]
  note lx = C1_priority_chain[where E = ex_env_less and p = "''/tmp/root/x''" and sb = ex_x
      and s = init_state and b = G_executable and s' = init_state]
  note ex = C1_priority_chain[where E = ex_env and s = ex_result
      and ?e1.0 = "\<lparr>path = Some ''/tmp/root/.b'', statbuf = ex_b\<rparr>" and ?b1.0 = G_writable
      and ?e2.0 = "\<lparr>path = Some ''/tmp/root/d/secret'', statbuf = ex_b\<rparr>"
      and ?b2.0 = G_writable]
  have bw: "bucket_of ex_env ex_w = Some G_suid" using w h3 by simp
  have bug: "bucket_of ex_env ex_ug = Some G_suid" using ug h4 by simp
  have bg: "bucket_of ex_env ex_g = Some G_sgid" using g h5 by simp
  have bb: "bucket_of ex_env ex_b = Some G_writable" using wb h7 by simp
  have bc: "bucket_of ex_env ex_c = None" using c h6 by simp
  have br: "bucket_of ex_env ex_r = None" using r h6 h7 by simp
  have bx: "bucket_of ex_env ex_x = None" using x h6 h7 by simp
  have blr: "bucket_of ex_env_less ex_r = Some G_readable" using lr h7 h8 by simp
  have blx: "bucket_of ex_env_less ex_x = Some G_executable" using lx h7 h8 by simp
  have m: "matches ex_env ex_w G_suid \<and> matches ex_env ex_w G_writable
     \<and> matches ex_env ex_ug G_suid \<and> matches ex_env ex_ug G_sgid
     \<and> \<not> matches ex_env ex_g G_suid \<and> matches ex_env ex_g G_sgid \<and> matches ex_env ex_g G_writable
     \<and> matches ex_env_less ex_r G_readable \<and> matches ex_env_less ex_r G_executable"
    using h3 h4 h5 h7 h8
    by (simp add: is_setuid_executable_def is_setgid_executable_def can_execute_def)
  have ra: "record_access_level ex_env ''/tmp/root/w'' ex_w init_state = Inr ?s'"
    "record_access_level ex_env ''/tmp/root/ug'' ex_ug init_state =
       Inr (init_state\<lparr>g_suid := \<lparr>len = 1, idx = 1,
              head = [Some \<lparr>path = Some ''/tmp/root/ug'', statbuf = ex_ug\<rparr>]\<rparr>, nalloc := 2\<rparr>)"
    "record_access_level ex_env ''/tmp/root/g'' ex_g init_state = Inr ?sg"
    "record_access_level ex_env ''/tmp/root/.b'' ex_b init_state =
       Inr (init_state\<lparr>g_writable := \<lparr>len = 1, idx = 1,
              head = [Some \<lparr>path = Some ''/tmp/root/.b'', statbuf = ex_b\<rparr>]\<rparr>, nalloc := 2\<rparr>)"
    "record_access_level ex_env ''/tmp/root/c'' ex_c init_state = Inr init_state"
    "record_access_level ex_env ''/tmp/root/r'' ex_r init_state = Inr init_state"
    "record_access_level ex_env ''/tmp/root/x'' ex_x init_state = Inr init_state"
    "record_access_level ex_env_less ''/tmp/root/r'' ex_r init_state =
       Inr (init_state\<lparr>g_readable := \<lparr>len = 1, idx = 1,
              head = [Some \<lparr>path = Some ''/tmp/root/r'', statbuf = ex_r\<rparr>]\<rparr>, nalloc := 2\<rparr>)"
    "record_access_level ex_env_less ''/tmp/root/x'' ex_x init_state =
       Inr (init_state\<lparr>g_executable := \<lparr>len = 1, idx = 1,
              head = [Some \<lparr>path = Some ''/tmp/root/x'', statbuf = ex_x\<rparr>]\<rparr>, nalloc := 2\<rparr>)"
    using w ug g wb c r x lr lx bw bug bg bb bc br bx blr blx r1 r2 r3 r4 r5 r6
    by simp_all
  from w h1 ex_scan have ip: "buckets_in_place ex_env init_state"
    "buckets_in_place ex_env ex_result"
    by simp_all
  show ?thesis using ex ip h1 h6 h8 h9 m ra bw bg bc e1 e2 ex_scan by simp
qed

text \<open>
  C4. \<open>is_setuid\<close> (the spec's \<open>is_setuid_executable\<close>) is \<open>is_executable\<close> together
  with the set-uid bit (bit 11). An object that has both goes to \<open>g_suid\<close>, whether or
  not it is writable as well: the append is the one to \<open>g_suid\<close>, and when it succeeds
  \<open>g_suid\<close> has the new entry at its end while the four other buckets are as before.
\<close>

theorem C4_setuid_bucket:
  "(is_setuid u sb \<longleftrightarrow> is_executable u sb \<and> bit (st_mode sb) 11)
   \<and> (is_executable (who E) sb \<and> bit (st_mode sb) 11 \<longrightarrow>
        record_access_level E p sb s = record_access E G_suid p sb s)
   \<and> (is_executable (who E) sb \<and> bit (st_mode sb) 11 \<and> state_inv s
        \<and> record_access_level E p sb s = Inr s' \<longrightarrow>
        recorded (g_suid s') =
          recorded (g_suid s) @
            [Some \<lparr>path = strdup (alloc_ok E) (nalloc s' - 1) p, statbuf = sb\<rparr>]
        \<and> g_sgid s' = g_sgid s \<and> g_writable s' = g_writable s
        \<and> g_readable s' = g_readable s \<and> g_executable s' = g_executable s)"
proof -
  have 1: "is_setuid v t \<longleftrightarrow> is_executable v t \<and> bit (st_mode t) 11" for v t
    by (simp add: is_setuid_def s_bits)
  have 2: "record_access_level E p sb s = record_access E G_suid p sb s"
    if "is_executable (who E) sb \<and> bit (st_mode sb) 11"
    using that 1[of "who E" sb] by (simp add: record_access_level_def)
  have 3: "recorded (g_suid s') =
          recorded (g_suid s) @
            [Some \<lparr>path = strdup (alloc_ok E) (nalloc s' - 1) p, statbuf = sb\<rparr>]
        \<and> g_sgid s' = g_sgid s \<and> g_writable s' = g_writable s
        \<and> g_readable s' = g_readable s \<and> g_executable s' = g_executable s"
    if x: "is_executable (who E) sb \<and> bit (st_mode sb) 11" and inv: "state_inv s"
      and r: "record_access_level E p sb s = Inr s'"
  proof -
    have i: "entries_inv (deref s G_suid)" using inv by (simp add: state_inv_def)
    have r': "record_access E G_suid p sb s = Inr s'" using 2[OF x] r by simp
    show ?thesis
      using record_access_recorded[OF i r'] record_access_Inr(2)[OF i r', of G_sgid]
        record_access_Inr(2)[OF i r', of G_writable] record_access_Inr(2)[OF i r', of G_readable]
        record_access_Inr(2)[OF i r', of G_executable]
      by simp
  qed
  show ?thesis using 1 2 3 by blast
qed

theorem C4_setuid_bucket_witness:
  "is_executable (who ex_env) ex_w \<and> bit (st_mode ex_w) 11 \<and> is_writable (who ex_env) ex_w
   \<and> state_inv init_state
   \<and> record_access_level ex_env ''/tmp/root/w'' ex_w init_state =
       Inr (init_state\<lparr>g_suid := \<lparr>len = 1, idx = 1,
              head = [Some \<lparr>path = Some ''/tmp/root/w'', statbuf = ex_w\<rparr>]\<rparr>, nalloc := 2\<rparr>)
   \<and> is_setuid (who ex_env) ex_w
   \<and> recorded (g_suid (init_state\<lparr>g_suid := \<lparr>len = 1, idx = 1,
              head = [Some \<lparr>path = Some ''/tmp/root/w'', statbuf = ex_w\<rparr>]\<rparr>, nalloc := 2\<rparr>))
       = recorded (g_suid init_state) @ [Some \<lparr>path = Some ''/tmp/root/w'', statbuf = ex_w\<rparr>]
   \<and> g_writable (init_state\<lparr>g_suid := \<lparr>len = 1, idx = 1,
              head = [Some \<lparr>path = Some ''/tmp/root/w'', statbuf = ex_w\<rparr>]\<rparr>, nalloc := 2\<rparr>)
       = g_writable init_state"
proof -
  let ?s' = "init_state\<lparr>g_suid := \<lparr>len = 1, idx = 1,
              head = [Some \<lparr>path = Some ''/tmp/root/w'', statbuf = ex_w\<rparr>]\<rparr>, nalloc := 2\<rparr>"
  have h1: "state_inv init_state" by code_simp
  have h2: "record_access_level ex_env ''/tmp/root/w'' ex_w init_state = Inr ?s'" by code_simp
  have h3: "is_executable (who ex_env) ex_w \<and> is_writable (who ex_env) ex_w" by code_simp
  have h4: "bit (st_mode ex_w) 11" by (simp add: ex_w_def)
  have h5: "strdup (alloc_ok ex_env) (nalloc ?s' - 1) ''/tmp/root/w'' = Some ''/tmp/root/w''"
    by code_simp
  show ?thesis
    using C4_setuid_bucket[of "who ex_env" ex_w ex_env "''/tmp/root/w''" init_state ?s']
      h1 h2 h3 h4 h5
    by simp
qed

text \<open>
  C9, as the code has it. When the block is full (\<open>idx = len\<close>) a successful append
  reallocates it to exactly one more slot, at the cost of two allocation requests
  (\<open>realloc\<close> and \<open>strdup\<close>), and the block is full again afterwards: from the empty
  bucket on, every append reallocates. When the block is not full, its size stays.
\<close>

theorem C9_grows_by_one:
  "(entries_inv (deref s b) \<and> idx (deref s b) = len (deref s b)
      \<and> record_access E b p sb s = Inr s' \<longrightarrow>
      unat (len (deref s' b)) = unat (len (deref s b)) + 1
      \<and> length (head (deref s' b)) = length (head (deref s b)) + 1
      \<and> idx (deref s' b) = len (deref s' b)
      \<and> nalloc s' = nalloc s + 2)
   \<and> (entries_inv (deref s b) \<and> idx (deref s b) \<noteq> len (deref s b)
      \<and> record_access E b p sb s = Inr s' \<longrightarrow>
      len (deref s' b) = len (deref s b)
      \<and> length (head (deref s' b)) = length (head (deref s b))
      \<and> nalloc s' = nalloc s + 1)"
proof -
  have 1: "unat (len (deref s' b)) = unat (len (deref s b)) + 1
      \<and> length (head (deref s' b)) = length (head (deref s b)) + 1
      \<and> idx (deref s' b) = len (deref s' b)
      \<and> nalloc s' = nalloc s + 2"
    if inv: "entries_inv (deref s b)" and full: "idx (deref s b) = len (deref s b)"
      and r: "record_access E b p sb s = Inr s'"
  proof -
    note f = record_access_Inr[OF inv r]
    have "nalloc s' = nalloc s + 2"
      using r full record_access_eq[OF inv, of E p sb] by (auto simp: Let_def split: if_splits)
    moreover have "length (head (deref s' b)) = unat (len (deref s' b))"
      "length (head (deref s b)) = unat (len (deref s b))"
      using f(9) inv by (simp_all add: entries_inv_def)
    ultimately show ?thesis using f(5,6,10) full by simp
  qed
  have 2: "len (deref s' b) = len (deref s b)
      \<and> length (head (deref s' b)) = length (head (deref s b))
      \<and> nalloc s' = nalloc s + 1"
    if inv: "entries_inv (deref s b)" and nf: "idx (deref s b) \<noteq> len (deref s b)"
      and r: "record_access E b p sb s = Inr s'"
  proof -
    note f = record_access_Inr[OF inv r]
    have "nalloc s' = nalloc s + 1"
      using r nf record_access_eq[OF inv, of E p sb] by (auto simp: Let_def split: if_splits)
    moreover have "length (head (deref s' b)) = unat (len (deref s' b))"
      "length (head (deref s b)) = unat (len (deref s b))"
      using f(9) inv by (simp_all add: entries_inv_def)
    ultimately show ?thesis using f(10) nf by simp
  qed
  show ?thesis using 1 2 by blast
qed

theorem C9_grows_by_one_witness:
  "entries_inv (deref init_state G_writable)
   \<and> idx (deref init_state G_writable) = len (deref init_state G_writable)
   \<and> record_access ex_env G_writable ''/tmp/root/.b'' ex_b init_state =
       Inr (init_state\<lparr>g_writable := \<lparr>len = 1, idx = 1,
              head = [Some \<lparr>path = Some ''/tmp/root/.b'', statbuf = ex_b\<rparr>]\<rparr>, nalloc := 2\<rparr>)
   \<and> unat (len (deref (init_state\<lparr>g_writable := \<lparr>len = 1, idx = 1,
              head = [Some \<lparr>path = Some ''/tmp/root/.b'', statbuf = ex_b\<rparr>]\<rparr>, nalloc := 2\<rparr>)
            G_writable)) = unat (len (deref init_state G_writable)) + 1
   \<and> entries_inv \<lparr>len = 2, idx = 1, head = [Some \<lparr>path = Some ''/x'', statbuf = ex_b\<rparr>, None]\<rparr>
   \<and> record_access ex_env G_writable ''/y'' ex_b
        (init_state\<lparr>g_writable := \<lparr>len = 2, idx = 1,
              head = [Some \<lparr>path = Some ''/x'', statbuf = ex_b\<rparr>, None]\<rparr>\<rparr>) =
       Inr (init_state\<lparr>g_writable := \<lparr>len = 2, idx = 2,
              head = [Some \<lparr>path = Some ''/x'', statbuf = ex_b\<rparr>,
                      Some \<lparr>path = Some ''/y'', statbuf = ex_b\<rparr>]\<rparr>, nalloc := 1\<rparr>)"
proof -
  let ?s1 = "init_state\<lparr>g_writable := \<lparr>len = 1, idx = 1,
              head = [Some \<lparr>path = Some ''/tmp/root/.b'', statbuf = ex_b\<rparr>]\<rparr>, nalloc := 2\<rparr>"
  let ?t0 = "init_state\<lparr>g_writable := \<lparr>len = 2, idx = 1,
              head = [Some \<lparr>path = Some ''/x'', statbuf = ex_b\<rparr>, None]\<rparr>\<rparr>"
  let ?t1 = "init_state\<lparr>g_writable := \<lparr>len = 2, idx = 2,
              head = [Some \<lparr>path = Some ''/x'', statbuf = ex_b\<rparr>,
                      Some \<lparr>path = Some ''/y'', statbuf = ex_b\<rparr>]\<rparr>, nalloc := 1\<rparr>"
  have h1: "entries_inv (deref init_state G_writable)" by code_simp
  have h2: "idx (deref init_state G_writable) = len (deref init_state G_writable)" by code_simp
  have h3: "record_access ex_env G_writable ''/tmp/root/.b'' ex_b init_state = Inr ?s1"
    by code_simp
  have h4: "entries_inv (deref ?t0 G_writable)" by code_simp
  have h5: "idx (deref ?t0 G_writable) \<noteq> len (deref ?t0 G_writable)" by code_simp
  have h6: "record_access ex_env G_writable ''/y'' ex_b ?t0 = Inr ?t1" by code_simp
  show ?thesis
    using C9_grows_by_one[of init_state G_writable ex_env "''/tmp/root/.b''" ex_b ?s1]
      C9_grows_by_one[of ?t0 G_writable ex_env "''/y''" ex_b ?t1]
      h1 h2 h3 h4 h5 h6
    by simp
qed

text \<open>
  C9, as the claim states it, fails on the empty bucket: the block is full
  (\<open>idx = len = 0\<close>), and the append leaves a block of one slot, which is not more than
  one slot larger.
\<close>

theorem C9_counterexample:
  "idx (deref init_state G_writable) = len (deref init_state G_writable)
   \<and> record_access ex_env G_writable ''/tmp/root/.b'' ex_b init_state =
       Inr (init_state\<lparr>g_writable := \<lparr>len = 1, idx = 1,
              head = [Some \<lparr>path = Some ''/tmp/root/.b'', statbuf = ex_b\<rparr>]\<rparr>, nalloc := 2\<rparr>)
   \<and> \<not> unat (len (deref init_state G_writable)) + 1
        < unat (len (deref (init_state\<lparr>g_writable := \<lparr>len = 1, idx = 1,
              head = [Some \<lparr>path = Some ''/tmp/root/.b'', statbuf = ex_b\<rparr>]\<rparr>, nalloc := 2\<rparr>)
            G_writable))"
  by code_simp

text \<open>
  What the store keeps. Every bucket has \<open>idx \<le> len\<close>, with \<open>len\<close> the size of its
  block: this holds of the initial buckets, each append that returns keeps it, and so
  does every scan. An append that returns writes slot \<open>idx\<close> (the old value) with the
  pointer \<open>strdup\<close> returned and with the \<open>stat\<close> buffer; it adds exactly one to \<open>idx\<close>
  and changes no slot below the old \<open>idx\<close> and no other bucket. After a scan each
  bucket begins with the entries it had before.
\<close>

lemma bucket_invariant:
  "state_inv init_state
   \<and> (entries_inv (deref s b) \<and> record_access E b p sb s = Inr s1 \<longrightarrow>
        entries_inv (deref s1 b) \<and> idx (deref s1 b) \<le> len (deref s1 b)
        \<and> unat (idx (deref s1 b)) = unat (idx (deref s b)) + 1
        \<and> head (deref s1 b) ! unat (idx (deref s b)) =
            Some \<lparr>path = strdup (alloc_ok E) (nalloc s1 - 1) p, statbuf = sb\<rparr>
        \<and> (\<forall>i < unat (idx (deref s b)). head (deref s1 b) ! i = head (deref s b) ! i)
        \<and> (\<forall>b'. b' \<noteq> b \<longrightarrow> deref s1 b' = deref s b'))
   \<and> (alloc_ok E k \<longrightarrow> strdup (alloc_ok E) k p = Some p)
   \<and> (\<not> alloc_ok E k \<longrightarrow> strdup (alloc_ok E) k p = None)
   \<and> (state_inv s \<and> scan_directory E dir t s = Inr s2 \<longrightarrow>
        state_inv s2 \<and> (\<forall>b. prefix (recorded (deref s b)) (recorded (deref s2 b))))"
proof -
  have 0: "state_inv init_state"
    by (simp add: state_inv_def init_state_def entries_inv_def g_empty_def)
  have 1: "entries_inv (deref s1 b) \<and> idx (deref s1 b) \<le> len (deref s1 b)
        \<and> unat (idx (deref s1 b)) = unat (idx (deref s b)) + 1
        \<and> head (deref s1 b) ! unat (idx (deref s b)) =
            Some \<lparr>path = strdup (alloc_ok E) (nalloc s1 - 1) p, statbuf = sb\<rparr>
        \<and> (\<forall>i < unat (idx (deref s b)). head (deref s1 b) ! i = head (deref s b) ! i)
        \<and> (\<forall>b'. b' \<noteq> b \<longrightarrow> deref s1 b' = deref s b')"
    if inv: "entries_inv (deref s b)" and r: "record_access E b p sb s = Inr s1"
    using record_access_Inr[OF inv r] by (simp add: entries_inv_def)
  have 2: "(alloc_ok E k \<longrightarrow> strdup (alloc_ok E) k p = Some p)
     \<and> (\<not> alloc_ok E k \<longrightarrow> strdup (alloc_ok E) k p = None)"
    by (simp add: strdup_def)
  have 3: "state_inv s2 \<and> (\<forall>b. prefix (recorded (deref s b)) (recorded (deref s2 b)))"
    if "state_inv s" "scan_directory E dir t s = Inr s2"
    using scan_preserves(1)[OF that] by simp
  show ?thesis using 0 1 2 3 by blast
qed

text \<open>
  C10. An append that returns is to hold a duplicate of the path. \<open>record_access\<close> tests
  what \<open>realloc\<close> returned and ends the process when it is \<open>NULL\<close>, but it stores what
  \<open>strdup\<close> returned untested. With an allocator that grants the \<open>realloc\<close> and refuses
  the \<open>strdup\<close> that follows, the append to the empty bucket returns, \<open>idx\<close> is 1, and
  slot 0 holds the \<open>NULL\<close> pointer with the \<open>stat\<close> buffer; the scan of \<open>/tmp/root\<close>
  returns as well, with the \<open>NULL\<close> pointer in the entry of the set-uid bucket where the
  path \<open>/tmp/root/a\<close> belongs.
\<close>

theorem C10_strdup_unchecked:
  "alloc_ok ex_env_nodup 0 \<and> \<not> alloc_ok ex_env_nodup 1
   \<and> entries_inv (deref init_state G_writable)
   \<and> record_access ex_env_nodup G_writable ''/tmp/root/.b'' ex_b init_state =
       Inr (init_state\<lparr>g_writable := \<lparr>len = 1, idx = 1,
              head = [Some \<lparr>path = None, statbuf = ex_b\<rparr>]\<rparr>, nalloc := 2\<rparr>)
   \<and> scan_directory ex_env_nodup ''/tmp/root'' ex_tree init_state =
       Inr (ex_result\<lparr>g_suid := \<lparr>len = 1, idx = 1,
              head = [Some \<lparr>path = None, statbuf = ex_a\<rparr>]\<rparr>\<rparr>)
   \<and> recorded (g_suid (ex_result\<lparr>g_suid := \<lparr>len = 1, idx = 1,
              head = [Some \<lparr>path = None, statbuf = ex_a\<rparr>]\<rparr>\<rparr>)) =
       [Some \<lparr>path = None, statbuf = ex_a\<rparr>]"
  by code_simp

lemma skip_name_iff: "skip_name n \<longleftrightarrow> n = ''.'' \<or> n = ''..''"
  by (cases n) (auto split: list.splits)

lemma path_fits:
  assumes "length n < PATH_MAX" "\<not> name_too_long dir n"
  shows "length (canonical_path dir n) + 1 \<le> PATH_MAX" and "length dir < PATH_MAX"
proof -
  have "(int PATH_MAX - 1 - int (length n)) mod 2 ^ 64 = int PATH_MAX - 1 - int (length n)"
    using assms(1) by (simp add: PATH_MAX_def)
  then have "length dir + length n < PATH_MAX - 1"
    using assms by (simp add: name_too_long_def PATH_MAX_def)
  then show "length (canonical_path dir n) + 1 \<le> PATH_MAX" and "length dir < PATH_MAX"
    by (simp_all add: canonical_path_def PATH_MAX_def)
qed

lemma loop_body_skip: "skip_name n \<Longrightarrow> loop_body E dir (Dirent n st sub) s = Inr s"
  by simp

lemma loop_body_too_long:
  "\<not> skip_name n \<Longrightarrow> length dir \<le> PATH_MAX + 1 \<Longrightarrow> name_too_long dir n \<Longrightarrow>
     loop_body E dir (Dirent n st sub) s =
       Inr (s\<lparr>trace := trace s @ [Err_name_too_long dir n]\<rparr>)"
  by simp

lemma loop_body_lstat:
  assumes "\<not> skip_name n" "\<not> name_too_long dir n" "length n < PATH_MAX"
  shows "loop_body E dir (Dirent n st sub) s =
     (case st of
        None \<Rightarrow> Inr (s\<lparr>trace := trace s @ [Lstat (canonical_path dir n),
                                             Err_lstat (canonical_path dir n)]\<rparr>)
      | Some sb \<Rightarrow>
          if S_ISLNK (st_mode sb)
          then Inr (s\<lparr>trace := trace s @ [Lstat (canonical_path dir n)]\<rparr>)
          else (case record_access_level E (canonical_path dir n) sb
                       (s\<lparr>trace := trace s @ [Lstat (canonical_path dir n)]\<rparr>) of
                  Inl x \<Rightarrow> Inl x
                | Inr s2 \<Rightarrow>
                    if descends E (Some sb)
                    then scan_directory E (canonical_path dir n) sub s2
                    else Inr s2))"
  using assms path_fits[OF assms(3,2)] by (simp add: descends_def split: option.splits sum.splits)

lemma record_access_trace: "record_access E b p sb s = Inr s' \<Longrightarrow> trace s' = trace s"
  by (auto simp: record_access_def Let_def split: if_splits option.splits)

lemma record_access_level_trace:
  "record_access_level E p sb s = Inr s' \<Longrightarrow> trace s' = trace s"
  by (auto simp: record_access_level_bucket record_access_trace split: option.splits)

lemma trace_grows:
  shows "scan_directory E dir t s = Inr s' \<Longrightarrow> prefix (trace s) (trace s')"
    and "readdir_loop E dir es s = Inr s' \<Longrightarrow> prefix (trace s) (trace s')"
    and "loop_body E dir pe s = Inr s' \<Longrightarrow> prefix (trace s) (trace s')"
proof -
  define Q where "Q s s' \<longleftrightarrow> prefix (trace s) (trace s')" for s s' :: state
  have rf: "Q s s" for s by (simp add: Q_def)
  have tr: "Q s s' \<Longrightarrow> Q s' s'' \<Longrightarrow> Q s s''" for s s' s''
    unfolding Q_def by (rule prefix_order.order_trans)
  have ev: "Q s (s\<lparr>trace := trace s @ evs\<rparr>)" for s evs by (simp add: Q_def)
  have rc: "record_access_level E p sb s = Inr s' \<Longrightarrow> Q s s'" for E p sb s s'
    unfolding Q_def using record_access_level_trace[of E p sb s s'] by simp
  show "scan_directory E dir t s = Inr s' \<Longrightarrow> prefix (trace s) (trace s')"
    unfolding Q_def[symmetric] by (rule scan_rel(1)[where Q = Q]) (blast intro: rf tr ev rc)+
  show "readdir_loop E dir es s = Inr s' \<Longrightarrow> prefix (trace s) (trace s')"
    unfolding Q_def[symmetric] by (rule scan_rel(2)[where Q = Q]) (blast intro: rf tr ev rc)+
  show "loop_body E dir pe s = Inr s' \<Longrightarrow> prefix (trace s) (trace s')"
    unfolding Q_def[symmetric] by (rule scan_rel(3)[where Q = Q]) (blast intro: rf tr ev rc)+
qed

lemma scan_directory_opens:
  assumes "scan_directory E dir t s = Inr s'"
  shows "prefix (trace s @ [Opendir dir]) (trace s')"
proof (cases t)
  case None
  with assms show ?thesis by auto
next
  case (Some es)
  with assms obtain s1 where
    s1: "readdir_loop E dir es (s\<lparr>trace := trace s @ [Opendir dir]\<rparr>) = Inr s1"
    and s': "s' = s1\<lparr>trace := trace s1 @ [Closedir dir]\<rparr>"
    by (auto split: sum.splits)
  from trace_grows(2)[OF s1] show ?thesis unfolding s'
    by (simp add: prefix_order.order_trans)
qed







lemma S_ISLNK_not_S_ISDIR: "S_ISLNK m \<Longrightarrow> \<not> S_ISDIR m"
  by (auto simp: S_ISDIR_def S_ISLNK_def S_IFDIR_def S_IFLNK_def)

lemma no_symlink_recorded_deref:
  "no_symlink_recorded s \<longleftrightarrow> (\<forall>b. list_all slot_no_symlink (recorded (deref s b)))"
proof
  assume "no_symlink_recorded s"
  then show "\<forall>b. list_all slot_no_symlink (recorded (deref s b))"
    by (auto simp: no_symlink_recorded_def intro: entries_ptr.induct)
next
  assume a: "\<forall>b. list_all slot_no_symlink (recorded (deref s b))"
  show "no_symlink_recorded s"
    using a[rule_format, of G_suid] a[rule_format, of G_sgid] a[rule_format, of G_writable]
      a[rule_format, of G_readable] a[rule_format, of G_executable]
    by (simp add: no_symlink_recorded_def)
qed

lemma no_symlink_recorded_upd [simp]:
  "no_symlink_recorded (s\<lparr>trace := t\<rparr>) = no_symlink_recorded s"
  by (simp add: no_symlink_recorded_def)

lemma no_symlink_record_access_level:
  assumes nl: "\<not> S_ISLNK (st_mode sb)" and inv: "state_inv s" and ns: "no_symlink_recorded s"
    and r: "record_access_level E p sb s = Inr s'"
  shows "no_symlink_recorded s'"
proof (cases "bucket_of E sb")
  case None
  with r ns show ?thesis by (simp add: record_access_level_bucket)
next
  case (Some b)
  then have r': "record_access E b p sb s = Inr s'"
    using r by (simp add: record_access_level_bucket)
  have i: "entries_inv (deref s b)" using inv by (simp add: state_inv_deref)
  have "list_all slot_no_symlink (recorded (deref s' b'))" for b'
  proof (cases "b' = b")
    case True
    then show ?thesis
      using record_access_recorded[OF i r'] ns nl
      by (simp add: no_symlink_recorded_deref slot_no_symlink_def)
  next
    case False
    then show ?thesis
      using record_access_Inr(2)[OF i r' False] ns by (simp add: no_symlink_recorded_deref)
  qed
  then show ?thesis by (simp add: no_symlink_recorded_deref)
qed

lemma scan_no_symlink:
  assumes "state_inv s" "no_symlink_recorded s" "scan_directory E dir t s = Inr s'"
  shows "no_symlink_recorded s'"
proof -
  define Q where "Q s s' \<longleftrightarrow>
     (state_inv s \<and> no_symlink_recorded s \<longrightarrow> state_inv s' \<and> no_symlink_recorded s')" for s s'
  have rf: "Q s s" for s by (simp add: Q_def)
  have tr: "Q s s' \<Longrightarrow> Q s' s'' \<Longrightarrow> Q s s''" for s s' s''
    unfolding Q_def by blast
  have ev: "Q s (s\<lparr>trace := trace s @ evs\<rparr>)" for s evs by (simp add: Q_def)
  have rc: "\<not> S_ISLNK (st_mode sb) \<Longrightarrow> record_access_level E p sb s = Inr s' \<Longrightarrow> Q s s'"
    for E p sb s s'
    unfolding Q_def
    using record_access_level_Inr(1)[of s E p sb s'] no_symlink_record_access_level[of sb s E p s']
    by blast
  have "Q s s'"
    by (rule scan_rel(1)[where Q = Q, OF _ _ _ _ assms(3)]) (blast intro: rf tr ev rc)+
  then show ?thesis using assms(1,2) by (simp add: Q_def)
qed

lemma loop_body_symlink:
  assumes "S_ISLNK (st_mode sb)"
  shows "loop_body E dir (Dirent n (Some sb) sub) s = Inl OutOfBounds
       \<or> (\<exists>evs. set evs \<subseteq> {Lstat (canonical_path dir n), Err_name_too_long dir n}
              \<and> loop_body E dir (Dirent n (Some sb) sub) s = Inr (s\<lparr>trace := trace s @ evs\<rparr>))"
proof -
  have "loop_body E dir (Dirent n (Some sb) sub) s = Inr s
    \<or> loop_body E dir (Dirent n (Some sb) sub) s = Inl OutOfBounds
    \<or> loop_body E dir (Dirent n (Some sb) sub) s =
                Inr (s\<lparr>trace := trace s @ [Err_name_too_long dir n]\<rparr>)
    \<or> loop_body E dir (Dirent n (Some sb) sub) s =
                Inr (s\<lparr>trace := trace s @ [Lstat (canonical_path dir n)]\<rparr>)"
    using assms by simp
  then consider (skip) "loop_body E dir (Dirent n (Some sb) sub) s = Inr s"
    | (oob) "loop_body E dir (Dirent n (Some sb) sub) s = Inl OutOfBounds"
    | (long) "loop_body E dir (Dirent n (Some sb) sub) s =
                Inr (s\<lparr>trace := trace s @ [Err_name_too_long dir n]\<rparr>)"
    | (link) "loop_body E dir (Dirent n (Some sb) sub) s =
                Inr (s\<lparr>trace := trace s @ [Lstat (canonical_path dir n)]\<rparr>)"
    by blast
  then show ?thesis
  proof cases
    case skip
    then have "set [] \<subseteq> {Lstat (canonical_path dir n), Err_name_too_long dir n}
       \<and> loop_body E dir (Dirent n (Some sb) sub) s = Inr (s\<lparr>trace := trace s @ []\<rparr>)"
      by simp
    then show ?thesis by blast
  next
    case oob
    then show ?thesis by simp
  next
    case long
    then have "set [Err_name_too_long dir n] \<subseteq> {Lstat (canonical_path dir n), Err_name_too_long dir n}
       \<and> loop_body E dir (Dirent n (Some sb) sub) s =
           Inr (s\<lparr>trace := trace s @ [Err_name_too_long dir n]\<rparr>)"
      by simp
    then show ?thesis by blast
  next
    case link
    then have "set [Lstat (canonical_path dir n)] \<subseteq> {Lstat (canonical_path dir n), Err_name_too_long dir n}
       \<and> loop_body E dir (Dirent n (Some sb) sub) s =
           Inr (s\<lparr>trace := trace s @ [Lstat (canonical_path dir n)]\<rparr>)"
      by simp
    then show ?thesis by blast
  qed
qed

text \<open>
  C6. An entry whose \<open>lstat\<close> answer is a symbolic link is neither recorded nor
  descended into, whatever its mode bits and whatever lies behind it: the pass over it
  ends in an out-of-buffer write or leaves the state as it was but for the trace, to
  which it adds at most the \<open>lstat\<close> call and the name-too-long warning, and no
  \<open>opendir\<close>. When the path fits, the pass is the \<open>lstat\<close> call alone. A link never
  passes the walker's test for descending. Over a whole scan: if no bucket held the
  \<open>stat\<close> of a link before, none does after.
\<close>

theorem C6_symlinks_skipped:
  "(S_ISLNK (st_mode sb) \<longrightarrow>
      loop_body E dir (Dirent n (Some sb) sub) s = Inl OutOfBounds
      \<or> (\<exists>evs. set evs \<subseteq> {Lstat (canonical_path dir n), Err_name_too_long dir n}
             \<and> loop_body E dir (Dirent n (Some sb) sub) s = Inr (s\<lparr>trace := trace s @ evs\<rparr>)))
   \<and> (S_ISLNK (st_mode sb) \<and> n \<noteq> ''.'' \<and> n \<noteq> ''..'' \<and> \<not> name_too_long dir n
        \<and> length n < PATH_MAX \<longrightarrow>
        loop_body E dir (Dirent n (Some sb) sub) s =
          Inr (s\<lparr>trace := trace s @ [Lstat (canonical_path dir n)]\<rparr>))
   \<and> (S_ISLNK (st_mode sb) \<longrightarrow> \<not> descends E (Some sb))
   \<and> no_symlink_recorded init_state
   \<and> (state_inv s \<and> no_symlink_recorded s \<and> scan_directory E dir t s = Inr s' \<longrightarrow>
        no_symlink_recorded s')"
proof -
  have 1: "loop_body E dir (Dirent n (Some sb) sub) s =
          Inr (s\<lparr>trace := trace s @ [Lstat (canonical_path dir n)]\<rparr>)"
    if "S_ISLNK (st_mode sb) \<and> n \<noteq> ''.'' \<and> n \<noteq> ''..'' \<and> \<not> name_too_long dir n
        \<and> length n < PATH_MAX"
    using that loop_body_lstat[of n dir E "Some sb" sub s] by (simp add: skip_name_iff)
  have 2: "S_ISLNK (st_mode sb) \<longrightarrow> \<not> descends E (Some sb)"
    by (simp add: descends_def S_ISLNK_not_S_ISDIR)
  have 3: "no_symlink_recorded init_state"
    by (simp add: no_symlink_recorded_def init_state_def recorded_def g_empty_def)
  show ?thesis
    using loop_body_symlink[of sb E dir n sub s] 1 2 3 scan_no_symlink[of s E dir t s']
    by blast
qed

theorem C6_symlinks_skipped_witness:
  "S_ISLNK (st_mode ex_l) \<and> ''l'' \<noteq> ''.'' \<and> ''l'' \<noteq> ''..'' \<and> \<not> name_too_long ''/tmp/root'' ''l''
   \<and> length ''l'' < PATH_MAX
   \<and> is_writable (who ex_env) ex_l \<and> is_executable (who ex_env) ex_l
   \<and> loop_body ex_env ''/tmp/root''
        (Dirent ''l'' (Some ex_l) (Some [Dirent ''target'' (Some ex_b) None])) init_state =
       Inr (init_state\<lparr>trace := trace init_state @ [Lstat ''/tmp/root/l'']\<rparr>)
   \<and> \<not> descends ex_env (Some ex_l)
   \<and> state_inv init_state \<and> no_symlink_recorded init_state
   \<and> scan_directory ex_env ''/tmp/root'' ex_tree init_state = Inr ex_result
   \<and> no_symlink_recorded ex_result"
proof -
  have h1: "S_ISLNK (st_mode ex_l)" by code_simp
  have h2: "\<not> name_too_long ''/tmp/root'' ''l'' \<and> length ''l'' < PATH_MAX" by code_simp
  have h3: "is_writable (who ex_env) ex_l \<and> is_executable (who ex_env) ex_l" by code_simp
  have h4: "canonical_path ''/tmp/root'' ''l'' = ''/tmp/root/l''" by code_simp
  have h5: "state_inv init_state" by code_simp
  note t = C6_symlinks_skipped[of ex_l ex_env "''/tmp/root''" "''l''"
      "Some [Dirent ''target'' (Some ex_b) None]" init_state ex_tree ex_result]
  show ?thesis using t h1 h2 h3 h4 h5 ex_scan by simp
qed

lemma loop_body_no_descend:
  assumes "\<not> descends E st"
  shows "loop_body E dir (Dirent n st sub) s = loop_body E dir (Dirent n st sub') s"
  using assms by (auto simp: descends_def split: option.splits sum.splits)

lemma scan_prune:
  shows "scan_directory E dir (map_option (map (prune E)) t) s = scan_directory E dir t s"
    and "readdir_loop E dir (map (prune E) es) s = readdir_loop E dir es s"
    and "loop_body E dir (prune E pe) s = loop_body E dir pe s"
proof (induction E dir t s and E dir es s and E dir pe s
       rule: scan_directory_readdir_loop_loop_body.induct)
  case (1 E dir s)
  then show ?case by simp
next
  case (2 E dir es s)
  then show ?case by simp
next
  case (3 E dir s)
  then show ?case by simp
next
  case (4 E dir pe es s)
  then show ?case by (simp split: sum.splits)
next
  case (5 E dir name st sub s)
  show ?case
  proof (cases "descends E st")
    case False
    then show ?thesis using loop_body_no_descend[OF False, of dir name None s sub] by simp
  next
    case True
    then obtain sb where st: "st = Some sb"
      and d: "S_ISDIR (st_mode sb) \<and> is_executable (who E) sb"
      by (auto simp: descends_def split: option.splits)
    then have nl: "\<not> S_ISLNK (st_mode sb)" using S_ISLNK_not_S_ISDIR by blast
    have p: "prune E (Dirent name st sub) = Dirent name st (map_option (map (prune E)) sub)"
      using True by simp
    show ?thesis
    proof (cases "skip_name name \<or> PATH_MAX + 1 < length dir \<or> name_too_long dir name
                  \<or> PATH_MAX + 1 < length (canonical_path dir name) + 1")
      case True
      then show ?thesis unfolding p by auto
    next
      case False
      then have c: "\<not> skip_name name" "\<not> PATH_MAX + 1 < length dir"
        "\<not> name_too_long dir name" "\<not> PATH_MAX + 1 < length (canonical_path dir name) + 1"
        by auto
      show ?thesis
      proof (cases "record_access_level E (canonical_path dir name) sb
                      (s\<lparr>trace := trace s @ [Lstat (canonical_path dir name)]\<rparr>)")
        case (Inl x)
        then show ?thesis unfolding p using c st nl by simp
      next
        case (Inr s2)
        from "5.IH"[OF c st nl Inr d] show ?thesis unfolding p using c st nl d Inr by simp
      qed
    qed
  qed
qed

text \<open>
  C7, as the code has it. The walker descends into an entry exactly when \<open>lstat\<close> says
  directory and \<open>is_executable\<close> holds. When the test fails, the pass over the entry
  does not depend on what lies below it, and, when the path fits and the entry is no
  link, it is the \<open>lstat\<close> call and the classification of the entry itself. When the
  test holds the pass goes on with \<open>scan_directory\<close> on the entry's path, which calls
  \<open>opendir\<close> on it first. Over the tree of one root: the scan gives the same result on
  the tree from which everything below an entry failing the test is removed, so that
  nothing is recorded by way of a directory entry the identity cannot execute, however
  permissive the objects below it are. The roots themselves are scanned by \<open>main\<close>
  without any test.
\<close>

theorem C7_descend_iff_executable_directory:
  "(descends E (Some sb) \<longleftrightarrow> S_ISDIR (st_mode sb) \<and> is_executable (who E) sb)
   \<and> \<not> descends E None
   \<and> (\<not> descends E st \<longrightarrow>
        loop_body E dir (Dirent n st sub) s = loop_body E dir (Dirent n st sub') s)
   \<and> (\<not> descends E (Some sb) \<and> \<not> S_ISLNK (st_mode sb) \<and> n \<noteq> ''.'' \<and> n \<noteq> ''..''
        \<and> \<not> name_too_long dir n \<and> length n < PATH_MAX \<longrightarrow>
        loop_body E dir (Dirent n (Some sb) sub) s =
          record_access_level E (canonical_path dir n) sb
            (s\<lparr>trace := trace s @ [Lstat (canonical_path dir n)]\<rparr>))
   \<and> (descends E (Some sb) \<and> n \<noteq> ''.'' \<and> n \<noteq> ''..''
        \<and> \<not> name_too_long dir n \<and> length n < PATH_MAX \<longrightarrow>
        loop_body E dir (Dirent n (Some sb) sub) s =
          (case record_access_level E (canonical_path dir n) sb
                  (s\<lparr>trace := trace s @ [Lstat (canonical_path dir n)]\<rparr>) of
             Inl x \<Rightarrow> Inl x
           | Inr s2 \<Rightarrow> scan_directory E (canonical_path dir n) sub s2))
   \<and> (scan_directory E dir t s = Inr s' \<longrightarrow> prefix (trace s @ [Opendir dir]) (trace s'))
   \<and> prune E (Dirent n st sub) =
       Dirent n st (if descends E st then map_option (map (prune E)) sub else None)
   \<and> scan_directory E dir (map_option (map (prune E)) t) s = scan_directory E dir t s
   \<and> main_loop E ((Some root, t) # argv) s =
       (case scan_directory E root t s of Inl x \<Rightarrow> Inl x | Inr s1 \<Rightarrow> main_loop E argv s1)"
proof -
  have 1: "loop_body E dir (Dirent n (Some sb) sub) s =
          record_access_level E (canonical_path dir n) sb
            (s\<lparr>trace := trace s @ [Lstat (canonical_path dir n)]\<rparr>)"
    if "\<not> descends E (Some sb) \<and> \<not> S_ISLNK (st_mode sb) \<and> n \<noteq> ''.'' \<and> n \<noteq> ''..''
        \<and> \<not> name_too_long dir n \<and> length n < PATH_MAX"
    using that loop_body_lstat[of n dir E "Some sb" sub s]
    by (simp add: skip_name_iff split: sum.splits)
  have 2: "loop_body E dir (Dirent n (Some sb) sub) s =
          (case record_access_level E (canonical_path dir n) sb
                  (s\<lparr>trace := trace s @ [Lstat (canonical_path dir n)]\<rparr>) of
             Inl x \<Rightarrow> Inl x
           | Inr s2 \<Rightarrow> scan_directory E (canonical_path dir n) sub s2)"
    if "descends E (Some sb) \<and> n \<noteq> ''.'' \<and> n \<noteq> ''..''
        \<and> \<not> name_too_long dir n \<and> length n < PATH_MAX"
  proof -
    have "\<not> S_ISLNK (st_mode sb)"
      using that S_ISLNK_not_S_ISDIR by (auto simp: descends_def)
    then show ?thesis
      using that loop_body_lstat[of n dir E "Some sb" sub s]
      by (simp add: skip_name_iff split: sum.splits)
  qed
  have 3: "(descends E (Some sb) \<longleftrightarrow> S_ISDIR (st_mode sb) \<and> is_executable (who E) sb)
     \<and> \<not> descends E None"
    by (simp add: descends_def)
  have 4: "prune E (Dirent n st sub) =
       Dirent n st (if descends E st then map_option (map (prune E)) sub else None)"
    by simp
  have 5: "main_loop E ((Some root, t) # argv) s =
       (case scan_directory E root t s of Inl x \<Rightarrow> Inl x | Inr s1 \<Rightarrow> main_loop E argv s1)"
    by simp
  show ?thesis
    using 1 2 3 4 5 loop_body_no_descend[of E st dir n sub s sub']
      scan_directory_opens[of E dir t s s'] scan_prune(1)[of E dir t s]
    by blast
qed


theorem C7_descend_iff_executable_directory_witness:
  "\<not> descends ex_env (Some ex_p) \<and> S_ISDIR (st_mode ex_p) \<and> \<not> is_executable (who ex_env) ex_p
   \<and> is_writable (who ex_env) ex_b \<and> \<not> S_ISLNK (st_mode ex_p)
   \<and> ''p'' \<noteq> ''.'' \<and> ''p'' \<noteq> ''..'' \<and> \<not> name_too_long ''/tmp/root'' ''p''
   \<and> length ''p'' < PATH_MAX
   \<and> loop_body ex_env ''/tmp/root''
        (Dirent ''p'' (Some ex_p) (Some [Dirent ''hidden'' (Some ex_b) None])) init_state =
       Inr (init_state\<lparr>trace := [Lstat ''/tmp/root/p'']\<rparr>)
   \<and> descends ex_env (Some ex_d) \<and> ''d'' \<noteq> ''.'' \<and> ''d'' \<noteq> ''..''
   \<and> \<not> name_too_long ''/tmp/root'' ''d'' \<and> length ''d'' < PATH_MAX
   \<and> loop_body ex_env ''/tmp/root''
        (Dirent ''d'' (Some ex_d) (Some [Dirent ''secret'' (Some ex_b) None])) init_state =
       Inr (init_state\<lparr>g_writable := \<lparr>len = 1, idx = 1,
              head = [Some \<lparr>path = Some ''/tmp/root/d/secret'', statbuf = ex_b\<rparr>]\<rparr>,
            nalloc := 2,
            trace := [Lstat ''/tmp/root/d'', Opendir ''/tmp/root/d'',
                      Lstat ''/tmp/root/d/secret'', Closedir ''/tmp/root/d'']\<rparr>)
   \<and> scan_directory ex_env ''/tmp/root'' ex_tree init_state = Inr ex_result
   \<and> prefix (trace init_state @ [Opendir ''/tmp/root'']) (trace ex_result)
   \<and> prune ex_env (Dirent ''p'' (Some ex_p) (Some [Dirent ''hidden'' (Some ex_b) None])) =
       Dirent ''p'' (Some ex_p) None
   \<and> scan_directory ex_env ''/tmp/root'' (map_option (map (prune ex_env)) ex_tree) init_state =
       Inr ex_result"
proof -
  let ?sd = "init_state\<lparr>g_writable := \<lparr>len = 1, idx = 1,
              head = [Some \<lparr>path = Some ''/tmp/root/d/secret'', statbuf = ex_b\<rparr>]\<rparr>,
            nalloc := 2,
            trace := [Lstat ''/tmp/root/d'', Opendir ''/tmp/root/d'',
                      Lstat ''/tmp/root/d/secret'', Closedir ''/tmp/root/d'']\<rparr>"
  have h1: "\<not> descends ex_env (Some ex_p) \<and> S_ISDIR (st_mode ex_p)
     \<and> \<not> is_executable (who ex_env) ex_p \<and> is_writable (who ex_env) ex_b
     \<and> \<not> S_ISLNK (st_mode ex_p) \<and> descends ex_env (Some ex_d)" by code_simp
  have h2: "\<not> name_too_long ''/tmp/root'' ''p'' \<and> length ''p'' < PATH_MAX
     \<and> \<not> name_too_long ''/tmp/root'' ''d'' \<and> length ''d'' < PATH_MAX" by code_simp
  have h3: "record_access_level ex_env (canonical_path ''/tmp/root'' ''p'') ex_p
              (init_state\<lparr>trace := trace init_state @ [Lstat (canonical_path ''/tmp/root'' ''p'')]\<rparr>)
            = Inr (init_state\<lparr>trace := [Lstat ''/tmp/root/p'']\<rparr>)" by code_simp
  have h4: "(case record_access_level ex_env (canonical_path ''/tmp/root'' ''d'') ex_d
                  (init_state\<lparr>trace := trace init_state @ [Lstat (canonical_path ''/tmp/root'' ''d'')]\<rparr>) of
             Inl x \<Rightarrow> Inl x
           | Inr s2 \<Rightarrow> scan_directory ex_env (canonical_path ''/tmp/root'' ''d'')
                         (Some [Dirent ''secret'' (Some ex_b) None]) s2) = Inr ?sd" by code_simp
  note p = C7_descend_iff_executable_directory[of ex_env ex_p "Some ex_p" "''/tmp/root''" "''p''"
      "Some [Dirent ''hidden'' (Some ex_b) None]" init_state
      "Some [Dirent ''hidden'' (Some ex_b) None]" ex_tree ex_result]
  note d = C7_descend_iff_executable_directory[of ex_env ex_d "Some ex_d" "''/tmp/root''" "''d''"
      "Some [Dirent ''secret'' (Some ex_b) None]" init_state
      "Some [Dirent ''secret'' (Some ex_b) None]" ex_tree ex_result]
  show ?thesis using p d h1 h2 h3 h4 ex_scan
    by (simp del: loop_body.simps scan_directory.simps)
qed

text \<open>
  C7, as the claim states it, fails for a directory that is also given as a root. The
  identity cannot execute the directory \<open>/tmp/root/p\<close>, and the scan of \<open>/tmp/root\<close>
  does not descend into it; named as the second argument, it is scanned all the same, and
  the file \<open>/tmp/root/p/hidden\<close> below it is recorded as writable.
\<close>

theorem C7_counterexample:
  "S_ISDIR (st_mode ex_p) \<and> \<not> is_executable (who ex_env) ex_p
   \<and> Dirent ''p'' (Some ex_p) (Some [Dirent ''hidden'' (Some ex_b) None]) \<in> set (the ex_tree)
   \<and> canonical_path ''/tmp/root'' ''p'' = ''/tmp/root/p''
   \<and> main_loop ex_env ex_argv init_state = Inr ex_result2
   \<and> Some \<lparr>path = Some ''/tmp/root/p/hidden'', statbuf = ex_b\<rparr>
       \<in> set (recorded (g_writable ex_result2))"
  by code_simp

lemma room_for_deref: "room_for n s \<longleftrightarrow> (\<forall>b. unat (idx (deref s b)) + n < 2 ^ 32)"
proof
  assume "room_for n s"
  then show "\<forall>b. unat (idx (deref s b)) + n < 2 ^ 32"
    by (auto simp: room_for_def intro: entries_ptr.induct)
next
  assume a: "\<forall>b. unat (idx (deref s b)) + n < 2 ^ 32"
  show "room_for n s"
    using a[rule_format, of G_suid] a[rule_format, of G_sgid] a[rule_format, of G_writable]
      a[rule_format, of G_readable] a[rule_format, of G_executable]
    by (simp add: room_for_def)
qed

lemma room_for_upd [simp]: "room_for n (s\<lparr>trace := t\<rparr>) = room_for n s"
  by (simp add: room_for_def)

lemma room_for_mono: "room_for n s \<Longrightarrow> m \<le> n \<Longrightarrow> room_for m s"
  by (simp add: room_for_def)

lemma n_dirents_simp: "n_dirents (Dirent n l t) = Suc (n_tree t)"
  by (cases t) (simp_all add: n_tree_def)

lemma names_fit_simp:
  "names_fit (Dirent n l t) \<longleftrightarrow> length n < PATH_MAX \<and> names_fit_tree t"
  by (cases t) (simp_all add: names_fit_tree_def list_all_iff)

lemma record_access_level_total:
  assumes inv: "state_inv s" and room: "room_for (Suc m) s"
  shows "(\<exists>s'. record_access_level E p sb s = Inr s' \<and> state_inv s' \<and> room_for m s'
              \<and> nalloc s \<le> nalloc s')
       \<or> (record_access_level E p sb s = Inl OutOfMemory \<and> \<not> alloc_ok E (nalloc s))"
proof (cases "bucket_of E sb")
  case None
  then show ?thesis using inv room_for_mono[OF room, of m]
    by (simp add: record_access_level_bucket)
next
  case (Some b)
  have i: "entries_inv (deref s b)" using inv by (simp add: state_inv_deref)
  have nm: "idx (deref s b) \<noteq> 4294967295"
    using room by (auto simp: room_for_deref unat_max32 dest: spec[of _ b])
  show ?thesis
  proof (cases "record_access E b p sb s")
    case (Inl x)
    with record_access_Inl[OF i Inl] nm Some show ?thesis
      by (simp add: record_access_level_bucket)
  next
    case (Inr s')
    note f = record_access_Inr[OF i Inr]
    have "unat (idx (deref s' b')) + m < 2 ^ 32" for b'
    proof (cases "b' = b")
      case True
      then show ?thesis using f(6) room by (auto simp: room_for_deref dest: spec[of _ b])
    next
      case False
      then show ?thesis using f(2)[OF False] room
        by (auto simp: room_for_deref dest: spec[of _ b'])
    qed
    then have "room_for m s'" by (simp add: room_for_deref)
    then show ?thesis
      using Some Inr state_inv_record_access[OF inv Inr] f(4)
      by (simp add: record_access_level_bucket)
  qed
qed

lemma returns_or_oom_trace [simp]:
  "returns_or_oom E (s\<lparr>trace := t\<rparr>) m r = returns_or_oom E s m r"
  by (cases r) (simp_all add: returns_or_oom_def)

lemma returns_or_oom_Inr [simp]:
  "returns_or_oom E s m (Inr s') \<longleftrightarrow> state_inv s' \<and> room_for m s' \<and> nalloc s \<le> nalloc s'"
  by (simp add: returns_or_oom_def)

lemma returns_or_oom_step:
  assumes "returns_or_oom E s1 m r" "nalloc s \<le> nalloc s1"
  shows "returns_or_oom E s m r"
  using assms by (auto simp: returns_or_oom_def split: sum.splits intro: le_trans)

lemma scan_total:
  shows "state_inv s \<Longrightarrow> room_for (n_tree t + m) s \<Longrightarrow> names_fit_tree t \<Longrightarrow>
           length dir \<le> PATH_MAX + 1 \<Longrightarrow>
           returns_or_oom E s m (scan_directory E dir t s)"
    and "state_inv s \<Longrightarrow> room_for (sum_list (map n_dirents es) + m) s \<Longrightarrow>
           list_all names_fit es \<Longrightarrow> length dir \<le> PATH_MAX + 1 \<Longrightarrow>
           returns_or_oom E s m (readdir_loop E dir es s)"
    and "state_inv s \<Longrightarrow> room_for (n_dirents pe + m) s \<Longrightarrow> names_fit pe \<Longrightarrow>
           length dir \<le> PATH_MAX + 1 \<Longrightarrow>
           returns_or_oom E s m (loop_body E dir pe s)"
proof (induction E dir t s and E dir es s and E dir pe s arbitrary: m and m and m
       rule: scan_directory_readdir_loop_loop_body.induct)
  case (1 E dir s)
  then show ?case by (simp add: n_tree_def)
next
  case (2 E dir es s)
  let ?s0 = "s\<lparr>trace := trace s @ [Opendir dir]\<rparr>"
  have "returns_or_oom E ?s0 m (readdir_loop E dir es ?s0)"
    using "2.prems" by (intro "2.IH") (simp_all add: n_tree_def names_fit_tree_def)
  then show ?case
    by (cases "readdir_loop E dir es ?s0") (simp_all add: returns_or_oom_def)
next
  case (3 E dir s)
  then show ?case by simp
next
  case (4 E dir pe es s)
  let ?k = "sum_list (map n_dirents es) + m"
  have b: "returns_or_oom E s ?k (loop_body E dir pe s)"
    using "4.prems" by (intro "4.IH"(1)) (simp_all add: add.assoc)
  show ?case
  proof (cases "loop_body E dir pe s")
    case (Inl x)
    with b show ?thesis by (simp add: returns_or_oom_def)
  next
    case (Inr s1)
    with b have s1: "state_inv s1" "room_for ?k s1" "nalloc s \<le> nalloc s1" by simp_all
    have "returns_or_oom E s1 m (readdir_loop E dir es s1)"
      using "4.prems" s1 by (intro "4.IH"(2)[OF Inr]) simp_all
    then show ?thesis using Inr s1(3) by (simp add: returns_or_oom_step)
  qed
next
  case (5 E dir name st sub s)
  have nf: "length name < PATH_MAX" "names_fit_tree sub"
    using "5.prems"(3) unfolding names_fit_simp by simp_all
  have room: "room_for (Suc (n_tree sub + m)) s"
    using "5.prems"(2) unfolding n_dirents_simp by simp
  have rm: "room_for m s" by (rule room_for_mono[OF room]) simp
  have fd: "\<not> PATH_MAX + 1 < length dir" using "5.prems"(4) by simp
  show ?case
  proof (cases "skip_name name")
    case True
    then show ?thesis using "5.prems"(1) rm by simp
  next
    case ns: False
    show ?thesis
    proof (cases "name_too_long dir name")
      case True
      then show ?thesis using ns fd "5.prems"(1) rm by simp
    next
      case ntl: False
      note pf = path_fits[OF nf(1) ntl]
      then have fp: "\<not> PATH_MAX + 1 < length (canonical_path dir name) + 1" by simp
      let ?p = "canonical_path dir name"
      let ?s1 = "s\<lparr>trace := trace s @ [Lstat ?p]\<rparr>"
      show ?thesis
      proof (cases st)
        case None
        then show ?thesis using ns fd ntl fp "5.prems"(1) rm by simp
      next
        case (Some sb)
        show ?thesis
        proof (cases "S_ISLNK (st_mode sb)")
          case True
          then show ?thesis using Some ns fd ntl fp "5.prems"(1) rm by simp
        next
          case nl: False
          have i1: "state_inv ?s1" "room_for (Suc (n_tree sub + m)) ?s1"
            using "5.prems"(1) room by simp_all
          from record_access_level_total[OF i1, of E ?p sb]
          consider (ok) s2 where "record_access_level E ?p sb ?s1 = Inr s2" "state_inv s2"
              "room_for (n_tree sub + m) s2" "nalloc s \<le> nalloc s2"
            | (oom) "record_access_level E ?p sb ?s1 = Inl OutOfMemory" "\<not> alloc_ok E (nalloc s)"
            by auto
          then show ?thesis
          proof cases
            case oom
            then show ?thesis using Some ns fd ntl fp nl
              by (auto simp: returns_or_oom_def)
          next
            case ok
            show ?thesis
            proof (cases "S_ISDIR (st_mode sb) \<and> is_executable (who E) sb")
              case True
              have "returns_or_oom E s2 m (scan_directory E ?p sub s2)"
                using ok nf(2) pf(1)
                by (intro "5.IH"[OF ns fd ntl fp Some nl ok(1) True]) simp_all
              then have "returns_or_oom E s m (scan_directory E ?p sub s2)"
                using ok(4) by (rule returns_or_oom_step)
              then show ?thesis using Some ns fd ntl fp nl ok(1) True by simp
            next
              case False
              have "room_for m s2" by (rule room_for_mono[OF ok(3)]) simp
              then show ?thesis using Some ns fd ntl fp nl ok False by auto
            qed
          qed
        qed
      qed
    qed
  qed
qed

lemma record_access_no_growth:
  assumes inv: "entries_inv (deref s b)" and nf: "idx (deref s b) \<noteq> len (deref s b)"
  shows "\<exists>s'. record_access E b p sb s = Inr s'"
proof -
  have "unat (idx (deref s b)) < unat (len (deref s b))"
    using inv nf by (auto simp: entries_inv_def word_le_nat_alt word_unat_eq_iff)
  moreover have "unat (len (deref s b)) < 2 ^ 32" using unsigned_less[of "len (deref s b)"] by simp
  ultimately have "idx (deref s b) \<noteq> 4294967295" by (simp add: unat_max32)
  then show ?thesis using nf record_access_eq[OF inv, of E p sb] by (simp add: Let_def)
qed

text \<open>
  C8. A directory that cannot be opened and an entry that cannot be stat'ed or whose
  path is too long end the call, or the pass, with a diagnostic and with every bucket
  as it was; the loop then goes on with the next entry. A scan that returns leaves in
  every bucket the entries it found there. With paths and bucket counters in range (the
  root path fits the buffer, names are shorter than \<open>PATH_MAX\<close>, no counter can reach
  \<open>UINT_MAX\<close>), a scan either returns or ends with "Out of memory!" after a refused
  allocation; it returns when no allocation is refused. Within \<open>record_access\<close> the fatal
  refusal is the one of \<open>realloc\<close>, asked for when the block is full; an append that
  needs no growth succeeds whatever the allocator answers.
\<close>

theorem C8_only_out_of_memory_is_fatal:
  "scan_directory E dir None s = Inr (s\<lparr>trace := trace s @ [Opendir dir, Err_opendir dir]\<rparr>)
   \<and> (n \<noteq> ''.'' \<and> n \<noteq> ''..'' \<and> \<not> name_too_long dir n \<and> length n < PATH_MAX \<longrightarrow>
        loop_body E dir (Dirent n None sub) s =
          Inr (s\<lparr>trace := trace s @ [Lstat (canonical_path dir n),
                                      Err_lstat (canonical_path dir n)]\<rparr>))
   \<and> (n \<noteq> ''.'' \<and> n \<noteq> ''..'' \<and> name_too_long dir n \<and> length dir \<le> PATH_MAX + 1 \<longrightarrow>
        loop_body E dir (Dirent n st sub) s =
          Inr (s\<lparr>trace := trace s @ [Err_name_too_long dir n]\<rparr>))
   \<and> readdir_loop E dir (pe # es) s =
       (case loop_body E dir pe s of Inl x \<Rightarrow> Inl x | Inr s1 \<Rightarrow> readdir_loop E dir es s1)
   \<and> (state_inv s \<and> scan_directory E dir t s = Inr s' \<longrightarrow>
        (\<forall>b. prefix (recorded (deref s b)) (recorded (deref s' b))))
   \<and> (state_inv s \<and> room_for (n_tree t) s \<and> names_fit_tree t \<and> length dir \<le> PATH_MAX + 1 \<longrightarrow>
        (\<exists>s'. scan_directory E dir t s = Inr s')
        \<or> (scan_directory E dir t s = Inl OutOfMemory \<and> (\<exists>k \<ge> nalloc s. \<not> alloc_ok E k)))
   \<and> (state_inv s \<and> room_for (n_tree t) s \<and> names_fit_tree t \<and> length dir \<le> PATH_MAX + 1
        \<and> (\<forall>k. alloc_ok E k) \<longrightarrow>
        (\<exists>s'. scan_directory E dir t s = Inr s'))
   \<and> (entries_inv (deref s b) \<and> record_access E b p sb s = Inl OutOfMemory \<longrightarrow>
        idx (deref s b) = len (deref s b) \<and> \<not> alloc_ok E (nalloc s))
   \<and> (entries_inv (deref s b) \<and> idx (deref s b) \<noteq> len (deref s b) \<longrightarrow>
        (\<exists>s'. record_access E b p sb s = Inr s'))"
proof -
  have 1: "loop_body E dir (Dirent n None sub) s =
          Inr (s\<lparr>trace := trace s @ [Lstat (canonical_path dir n),
                                      Err_lstat (canonical_path dir n)]\<rparr>)"
    if "n \<noteq> ''.'' \<and> n \<noteq> ''..'' \<and> \<not> name_too_long dir n \<and> length n < PATH_MAX"
    using that loop_body_lstat[of n dir E None sub s] by (simp add: skip_name_iff)
  have 2: "loop_body E dir (Dirent n st sub) s =
          Inr (s\<lparr>trace := trace s @ [Err_name_too_long dir n]\<rparr>)"
    if "n \<noteq> ''.'' \<and> n \<noteq> ''..'' \<and> name_too_long dir n \<and> length dir \<le> PATH_MAX + 1"
    using that loop_body_too_long[of n dir E st sub s] by (simp add: skip_name_iff)
  have 3: "\<forall>b. prefix (recorded (deref s b)) (recorded (deref s' b))"
    if "state_inv s \<and> scan_directory E dir t s = Inr s'"
    using that scan_preserves(1)[of s E dir t s'] by simp
  have 4: "(\<exists>s'. scan_directory E dir t s = Inr s')
        \<or> (scan_directory E dir t s = Inl OutOfMemory \<and> (\<exists>k \<ge> nalloc s. \<not> alloc_ok E k))"
    if h: "state_inv s \<and> room_for (n_tree t) s \<and> names_fit_tree t \<and> length dir \<le> PATH_MAX + 1"
  proof -
    have "returns_or_oom E s 0 (scan_directory E dir t s)"
      using h by (intro scan_total(1)) simp_all
    then show ?thesis
      by (cases "scan_directory E dir t s") (simp_all add: returns_or_oom_def)
  qed
  have 5: "\<exists>s'. scan_directory E dir t s = Inr s'"
    if "state_inv s \<and> room_for (n_tree t) s \<and> names_fit_tree t \<and> length dir \<le> PATH_MAX + 1
        \<and> (\<forall>k. alloc_ok E k)"
    using that 4 by blast
  have 6: "idx (deref s b) = len (deref s b) \<and> \<not> alloc_ok E (nalloc s)"
    if "entries_inv (deref s b) \<and> record_access E b p sb s = Inl OutOfMemory"
    using that record_access_Inl[of s b E p sb OutOfMemory] by simp
  have 7: "\<exists>s'. record_access E b p sb s = Inr s'"
    if "entries_inv (deref s b) \<and> idx (deref s b) \<noteq> len (deref s b)"
    using that record_access_no_growth[of s b E p sb] by simp
  have 8: "scan_directory E dir None s = Inr (s\<lparr>trace := trace s @ [Opendir dir, Err_opendir dir]\<rparr>)
     \<and> readdir_loop E dir (pe # es) s =
       (case loop_body E dir pe s of Inl x \<Rightarrow> Inl x | Inr s1 \<Rightarrow> readdir_loop E dir es s1)"
    by simp
  show ?thesis using 1 2 3 4 5 6 7 8 by blast
qed

theorem C8_only_out_of_memory_is_fatal_witness:
  "''gone'' \<noteq> ''.'' \<and> ''gone'' \<noteq> ''..'' \<and> \<not> name_too_long ''/tmp/root'' ''gone''
   \<and> length ''gone'' < PATH_MAX
   \<and> loop_body ex_env ''/tmp/root'' (Dirent ''gone'' None None) init_state =
       Inr (init_state\<lparr>trace := [Lstat ''/tmp/root/gone'', Err_lstat ''/tmp/root/gone'']\<rparr>)
   \<and> ''y'' \<noteq> ''.'' \<and> ''y'' \<noteq> ''..'' \<and> name_too_long (replicate 4094 (CHR ''x'')) ''y''
   \<and> length (replicate 4094 (CHR ''x'')) \<le> PATH_MAX + 1
   \<and> loop_body ex_env (replicate 4094 (CHR ''x'')) (Dirent ''y'' (Some ex_b) None) init_state =
       Inr (init_state\<lparr>trace := [Err_name_too_long (replicate 4094 (CHR ''x'')) ''y'']\<rparr>)
   \<and> state_inv init_state \<and> room_for (n_tree ex_tree) init_state \<and> names_fit_tree ex_tree
   \<and> length ''/tmp/root'' \<le> PATH_MAX + 1 \<and> (\<forall>k. alloc_ok ex_env k)
   \<and> scan_directory ex_env ''/tmp/root'' ex_tree init_state = Inr ex_result
   \<and> prefix (recorded (deref init_state G_suid)) (recorded (deref ex_result G_suid))
   \<and> scan_directory (ex_env\<lparr>alloc_ok := (\<lambda>k. k < 3)\<rparr>) ''/tmp/root'' ex_tree init_state =
       Inl OutOfMemory
   \<and> (\<exists>k \<ge> nalloc init_state. \<not> alloc_ok (ex_env\<lparr>alloc_ok := (\<lambda>k. k < 3)\<rparr>) k)
   \<and> entries_inv (deref init_state G_writable)
   \<and> record_access (ex_env\<lparr>alloc_ok := (\<lambda>k. False)\<rparr>) G_writable ''/x'' ex_b init_state =
       Inl OutOfMemory
   \<and> idx (deref init_state G_writable) = len (deref init_state G_writable)
   \<and> \<not> alloc_ok (ex_env\<lparr>alloc_ok := (\<lambda>k. False)\<rparr>) (nalloc init_state)
   \<and> entries_inv (deref (init_state\<lparr>g_writable := \<lparr>len = 2, idx = 1,
          head = [Some \<lparr>path = Some ''/x'', statbuf = ex_b\<rparr>, None]\<rparr>\<rparr>) G_writable)
   \<and> record_access (ex_env\<lparr>alloc_ok := (\<lambda>k. False)\<rparr>) G_writable ''/y'' ex_b
        (init_state\<lparr>g_writable := \<lparr>len = 2, idx = 1,
           head = [Some \<lparr>path = Some ''/x'', statbuf = ex_b\<rparr>, None]\<rparr>\<rparr>) =
       Inr (init_state\<lparr>g_writable := \<lparr>len = 2, idx = 2,
              head = [Some \<lparr>path = Some ''/x'', statbuf = ex_b\<rparr>,
                      Some \<lparr>path = None, statbuf = ex_b\<rparr>]\<rparr>, nalloc := 1\<rparr>)"
proof -
  let ?E2 = "ex_env\<lparr>alloc_ok := (\<lambda>k. k < 3)\<rparr>"
  let ?E3 = "ex_env\<lparr>alloc_ok := (\<lambda>k. False)\<rparr>"
  let ?long = "replicate 4094 (CHR ''x'')"
  let ?t0 = "init_state\<lparr>g_writable := \<lparr>len = 2, idx = 1,
          head = [Some \<lparr>path = Some ''/x'', statbuf = ex_b\<rparr>, None]\<rparr>\<rparr>"
  let ?t1 = "init_state\<lparr>g_writable := \<lparr>len = 2, idx = 2,
              head = [Some \<lparr>path = Some ''/x'', statbuf = ex_b\<rparr>,
                      Some \<lparr>path = None, statbuf = ex_b\<rparr>]\<rparr>, nalloc := 1\<rparr>"
  have h1: "\<not> name_too_long ''/tmp/root'' ''gone'' \<and> length ''gone'' < PATH_MAX
     \<and> canonical_path ''/tmp/root'' ''gone'' = ''/tmp/root/gone''" by code_simp
  have h2: "name_too_long ?long ''y'' \<and> length ?long \<le> PATH_MAX + 1"
    by (simp add: name_too_long_def PATH_MAX_def)
  have h3a: "state_inv init_state \<and> names_fit_tree ex_tree
     \<and> length ''/tmp/root'' \<le> PATH_MAX + 1" by code_simp
  have h3b: "n_tree ex_tree = 13" by code_simp
  have h3c: "room_for 13 init_state" by (simp add: room_for_def init_state_def g_empty_def)
  have h3: "state_inv init_state \<and> room_for (n_tree ex_tree) init_state \<and> names_fit_tree ex_tree
     \<and> length ''/tmp/root'' \<le> PATH_MAX + 1" using h3a h3b h3c by simp
  have h4: "\<forall>k. alloc_ok ex_env k" by (simp add: ex_env_def)
  have h5: "scan_directory ?E2 ''/tmp/root'' ex_tree init_state = Inl OutOfMemory" by code_simp
  have h6: "entries_inv (deref init_state G_writable) \<and> entries_inv (deref ?t0 G_writable)
     \<and> idx (deref ?t0 G_writable) \<noteq> len (deref ?t0 G_writable)" by code_simp
  have h7: "record_access ?E3 G_writable ''/x'' ex_b init_state = Inl OutOfMemory" by code_simp
  have h8: "record_access ?E3 G_writable ''/y'' ex_b ?t0 = Inr ?t1" by code_simp
  have h9: "trace init_state = []" by code_simp
  note a = C8_only_out_of_memory_is_fatal[where E = ex_env and dir = "''/tmp/root''"
      and s = init_state and n = "''gone''" and sub = None and st = None and t = ex_tree
      and s' = ex_result and b = G_writable and p = "''/x''" and sb = ex_b]
  note b = C8_only_out_of_memory_is_fatal[where E = ?E2 and dir = "''/tmp/root''"
      and s = init_state and n = "''gone''" and sub = None and st = None and t = ex_tree
      and s' = ex_result and b = G_writable and p = "''/x''" and sb = ex_b]
  note c = C8_only_out_of_memory_is_fatal[where E = ex_env and dir = ?long
      and s = init_state and n = "''y''" and sub = None and st = "Some ex_b" and t = ex_tree
      and s' = ex_result and b = G_writable and p = "''/x''" and sb = ex_b]
  note d = C8_only_out_of_memory_is_fatal[where E = ?E3 and dir = "''/tmp/root''"
      and s = init_state and n = "''gone''" and sub = None and st = None and t = ex_tree
      and s' = ex_result and b = G_writable and p = "''/x''" and sb = ex_b]
  note e = C8_only_out_of_memory_is_fatal[where E = ?E3 and dir = "''/tmp/root''"
      and s = ?t0 and n = "''gone''" and sub = None and st = None and t = ex_tree
      and s' = ex_result and b = G_writable and p = "''/y''" and sb = ex_b]
  from a h1 h9 have A: "loop_body ex_env ''/tmp/root'' (Dirent ''gone'' None None) init_state =
       Inr (init_state\<lparr>trace := [Lstat ''/tmp/root/gone'', Err_lstat ''/tmp/root/gone'']\<rparr>)"
    by (simp del: loop_body.simps scan_directory.simps readdir_loop.simps)
  from c h2 h9 have B: "loop_body ex_env ?long (Dirent ''y'' (Some ex_b) None) init_state =
       Inr (init_state\<lparr>trace := [Err_name_too_long ?long ''y'']\<rparr>)"
    by (simp del: loop_body.simps scan_directory.simps readdir_loop.simps)
  from a h3 ex_scan have "\<forall>b. prefix (recorded (deref init_state b)) (recorded (deref ex_result b))"
    by (simp del: loop_body.simps scan_directory.simps readdir_loop.simps)
  then have C: "prefix (recorded (deref init_state G_suid)) (recorded (deref ex_result G_suid))"
    by (rule spec)
  from b h3 h5 have D: "\<exists>k \<ge> nalloc init_state. \<not> alloc_ok ?E2 k"
    by (simp del: loop_body.simps scan_directory.simps readdir_loop.simps)
  from d h6 h7 have F: "idx (deref init_state G_writable) = len (deref init_state G_writable)
      \<and> \<not> alloc_ok ?E3 (nalloc init_state)"
    by (simp del: loop_body.simps scan_directory.simps readdir_loop.simps)
  show ?thesis using A B C D F h1 h2 h3 h4 h5 h6 h7 h8 ex_scan
    by (simp del: loop_body.simps scan_directory.simps readdir_loop.simps)
qed

end
